theory Spec2Isabelle
  imports Complex_Main "HOL-Library.Sublist"
begin

section \<open>Go strings\<close>

text \<open>
  A Go string is a sequence of bytes; it is modelled as \<open>string\<close>, a list of 8-bit
  characters. The functions of package \<open>strings\<close> that the services call are modelled
  for the one-byte separators they are called with.
\<close>

text \<open>
  \<open>strings.Split(s, sep)\<close> for a one-byte separator: the substrings between the
  separators, so the result has one more element than \<open>s\<close> has separators and
  \<open>Split("", ",")\<close> is the one-element list holding the empty string.
\<close>

fun Split :: "string \<Rightarrow> char \<Rightarrow> string list" where
  "Split [] sep = [[]]"
| "Split (c # cs) sep =
     (if c = sep then [] # Split cs sep
      else (case Split cs sep of
              [] \<Rightarrow> [[c]]
            | p # ps \<Rightarrow> (c # p) # ps))"

text \<open>\<open>strings.Join(elems, sep)\<close> for a one-byte separator.\<close>

fun Join :: "string list \<Rightarrow> char \<Rightarrow> string" where
  "Join [] sep = []"
| "Join [e] sep = e"
| "Join (e # e' # es) sep = e @ sep # Join (e' # es) sep"

text \<open>\<open>strings.HasPrefix(s, prefix)\<close>.\<close>

definition HasPrefix :: "string \<Rightarrow> string \<Rightarrow> bool" where
  "HasPrefix s p = (take (length p) s = p)"

text \<open>
  \<open>strings.TrimSpace\<close> removes the leading and then the trailing runes for which
  \<open>unicode.IsSpace\<close> holds. \<open>spaceRunes\<close> lists their UTF-8 encodings: the six
  ASCII spaces, U+0085, U+00A0, U+1680, U+2000 to U+200A, U+2028, U+2029, U+202F,
  U+205F and U+3000. \<open>dropSpaces\<close> removes leading occurrences; the trailing ones
  are removed on the reversed string.
\<close>

definition spaceRunes :: "string list" where
  "spaceRunes =
     [[CHR 0x09], [CHR 0x0A], [CHR 0x0B], [CHR 0x0C], [CHR 0x0D], [CHR 0x20],
      [CHR 0xC2, CHR 0x85], [CHR 0xC2, CHR 0xA0], [CHR 0xE1, CHR 0x9A, CHR 0x80],
      [CHR 0xE2, CHR 0x80, CHR 0x80], [CHR 0xE2, CHR 0x80, CHR 0x81],
      [CHR 0xE2, CHR 0x80, CHR 0x82], [CHR 0xE2, CHR 0x80, CHR 0x83],
      [CHR 0xE2, CHR 0x80, CHR 0x84], [CHR 0xE2, CHR 0x80, CHR 0x85],
      [CHR 0xE2, CHR 0x80, CHR 0x86], [CHR 0xE2, CHR 0x80, CHR 0x87],
      [CHR 0xE2, CHR 0x80, CHR 0x88], [CHR 0xE2, CHR 0x80, CHR 0x89],
      [CHR 0xE2, CHR 0x80, CHR 0x8A], [CHR 0xE2, CHR 0x80, CHR 0xA8],
      [CHR 0xE2, CHR 0x80, CHR 0xA9], [CHR 0xE2, CHR 0x80, CHR 0xAF],
      [CHR 0xE2, CHR 0x81, CHR 0x9F], [CHR 0xE3, CHR 0x80, CHR 0x80]]"

fun dropSpaces :: "string list \<Rightarrow> string \<Rightarrow> string" where
  "dropSpaces runes [] = []"
| "dropSpaces runes (c # cs) =
     (case List.find (\<lambda>p. prefix p (c # cs)) runes of
        None \<Rightarrow> c # cs
      | Some p \<Rightarrow> dropSpaces runes (drop (length p - 1) cs))"

definition TrimSpace :: "string \<Rightarrow> string" where
  "TrimSpace s = rev (dropSpaces (map rev spaceRunes) (rev (dropSpaces spaceRunes s)))"

section \<open>Decoding a JSON array of strings\<close>

text \<open>
  \<open>json.Unmarshal(data, &v)\<close> of package \<open>encoding/json\<close> for a target
  \<open>v\<close> of type \<open>[]string\<close>. The call returns no error exactly when \<open>data\<close> is,
  between optional JSON white space, the literal \<open>null\<close> or an array whose elements
  are string literals or \<open>null\<close> (which leaves the element empty); every other
  input is either not valid JSON or holds a value that is not a string, and both give an
  error. \<open>None\<close> stands for the error.
\<close>

text \<open>\<open>getu4\<close>: the code unit written by a backslash, the letter u and four
  hexadecimal digits at the start of the input.\<close>

definition hexval :: "char \<Rightarrow> nat option" where
  "hexval c =
     (let b = of_char c :: nat
      in if 0x30 \<le> b \<and> b \<le> 0x39 then Some (b - 0x30)
         else if 0x61 \<le> b \<and> b \<le> 0x66 then Some (b - 0x61 + 10)
         else if 0x41 \<le> b \<and> b \<le> 0x46 then Some (b - 0x41 + 10)
         else None)"

definition getu4 :: "string \<Rightarrow> nat option" where
  "getu4 s =
     (case s of
        b # u # h1 # h2 # h3 # h4 # _ \<Rightarrow>
          if b = CHR 0x5C \<and> u = CHR ''u'' then
            (case (hexval h1, hexval h2, hexval h3, hexval h4) of
               (Some x1, Some x2, Some x3, Some x4) \<Rightarrow> Some (((x1 * 16 + x2) * 16 + x3) * 16 + x4)
             | _ \<Rightarrow> None)
          else None
      | _ \<Rightarrow> None)"

text \<open>
  \<open>utf8.DecodeRune\<close> (the rune and its width, \<open>RuneError\<close> with width 1 for an
  invalid encoding), \<open>utf8.EncodeRune\<close> and \<open>utf16.DecodeRune\<close>; then one step
  of the decoder's \<open>unquote\<close> loop, which either meets the closing quote, rejects
  the literal, or consumes some bytes and emits their decoding, and the loop itself,
  which returns the decoded literal and the input that follows it.
\<close>

definition inRange :: "char \<Rightarrow> nat \<Rightarrow> nat \<Rightarrow> bool" where
  "inRange c lo hi = (lo \<le> of_char c \<and> of_char c \<le> hi)"

definition RuneError :: nat where
  "RuneError = 0xFFFD"

fun DecodeRune :: "string \<Rightarrow> nat \<times> nat" where
  "DecodeRune [] = (RuneError, 0)"
| "DecodeRune (c0 # cs) =
     (let b0 = of_char c0 :: nat
      in if b0 < 0x80 then (b0, 1)
         else if 0xC2 \<le> b0 \<and> b0 \<le> 0xDF then
           (case cs of
              c1 # _ \<Rightarrow>
                if inRange c1 0x80 0xBF then ((b0 mod 32) * 64 + of_char c1 mod 64, 2)
                else (RuneError, 1)
            | _ \<Rightarrow> (RuneError, 1))
         else if 0xE0 \<le> b0 \<and> b0 \<le> 0xEF then
           (case cs of
              c1 # c2 # _ \<Rightarrow>
                if inRange c1 (if b0 = 0xE0 then 0xA0 else 0x80) (if b0 = 0xED then 0x9F else 0xBF)
                   \<and> inRange c2 0x80 0xBF
                then (((b0 mod 16) * 64 + of_char c1 mod 64) * 64 + of_char c2 mod 64, 3)
                else (RuneError, 1)
            | _ \<Rightarrow> (RuneError, 1))
         else if 0xF0 \<le> b0 \<and> b0 \<le> 0xF4 then
           (case cs of
              c1 # c2 # c3 # _ \<Rightarrow>
                if inRange c1 (if b0 = 0xF0 then 0x90 else 0x80) (if b0 = 0xF4 then 0x8F else 0xBF)
                   \<and> inRange c2 0x80 0xBF \<and> inRange c3 0x80 0xBF
                then ((((b0 mod 8) * 64 + of_char c1 mod 64) * 64 + of_char c2 mod 64) * 64
                        + of_char c3 mod 64, 4)
                else (RuneError, 1)
            | _ \<Rightarrow> (RuneError, 1))
         else (RuneError, 1))"

definition EncodeRune :: "nat \<Rightarrow> string" where
  "EncodeRune r =
     (if r < 0x80 then [char_of r]
      else if r < 0x800 then [char_of (0xC0 + r div 64), char_of (0x80 + r mod 64)]
      else if (0xD800 \<le> r \<and> r < 0xE000) \<or> 0x10FFFF < r then [CHR 0xEF, CHR 0xBF, CHR 0xBD]
      else if r < 0x10000 then
        [char_of (0xE0 + r div 4096), char_of (0x80 + r div 64 mod 64), char_of (0x80 + r mod 64)]
      else
        [char_of (0xF0 + r div 262144), char_of (0x80 + r div 4096 mod 64),
         char_of (0x80 + r div 64 mod 64), char_of (0x80 + r mod 64)])"

definition utf16DecodeRune :: "nat \<Rightarrow> nat option \<Rightarrow> nat" where
  "utf16DecodeRune r1 r2 =
     (case r2 of
        None \<Rightarrow> RuneError
      | Some r2' \<Rightarrow>
          if 0xD800 \<le> r1 \<and> r1 < 0xDC00 \<and> 0xDC00 \<le> r2' \<and> r2' < 0xE000
          then (r1 - 0xD800) * 1024 + (r2' - 0xDC00) + 0x10000
          else RuneError)"

definition simpleEscape :: "char \<Rightarrow> char option" where
  "simpleEscape e =
     (if e = CHR 0x22 \<or> e = CHR 0x5C \<or> e = CHR ''/'' then Some e
      else if e = CHR ''b'' then Some (CHR 0x08)
      else if e = CHR ''f'' then Some (CHR 0x0C)
      else if e = CHR ''n'' then Some (CHR 0x0A)
      else if e = CHR ''r'' then Some (CHR 0x0D)
      else if e = CHR ''t'' then Some (CHR 0x09)
      else None)"

datatype unquoteStep = Closing | Invalid | Emit string nat

definition unquoteStep :: "string \<Rightarrow> unquoteStep" where
  "unquoteStep s =
     (case s of
        [] \<Rightarrow> Invalid
      | c # cs \<Rightarrow>
          if c = CHR 0x22 then Closing
          else if c = CHR 0x5C then
            (case cs of
               [] \<Rightarrow> Invalid
             | e # es \<Rightarrow>
                 if e = CHR ''u'' then
                   (case getu4 s of
                      None \<Rightarrow> Invalid
                    | Some rr \<Rightarrow>
                        if 0xD800 \<le> rr \<and> rr < 0xE000 then
                          (let dec = utf16DecodeRune rr (getu4 (drop 6 s))
                           in if dec \<noteq> RuneError then Emit (EncodeRune dec) 12
                              else Emit (EncodeRune RuneError) 6)
                        else Emit (EncodeRune rr) 6)
                 else
                   (case simpleEscape e of
                      None \<Rightarrow> Invalid
                    | Some b \<Rightarrow> Emit [b] 2))
          else if (of_char c :: nat) < 0x20 then Invalid
          else if (of_char c :: nat) < 0x80 then Emit [c] 1
          else (case DecodeRune s of (rr, width) \<Rightarrow> Emit (EncodeRune rr) width))"

fun unquote :: "string \<Rightarrow> (string \<times> string) option" where
  "unquote [] = None"
| "unquote (c # cs) =
     (case unquoteStep (c # cs) of
        Closing \<Rightarrow> Some ([], cs)
      | Invalid \<Rightarrow> None
      | Emit b k \<Rightarrow>
          (case unquote (drop (k - 1) cs) of
             None \<Rightarrow> None
           | Some (t, rest) \<Rightarrow> Some (b @ t, rest)))"

text \<open>
  JSON white space, and one element of the array: a string literal or \<open>null\<close>,
  with the input that follows it.
\<close>

definition isJSONSpace :: "char \<Rightarrow> bool" where
  "isJSONSpace c = (c = CHR 0x20 \<or> c = CHR 0x09 \<or> c = CHR 0x0D \<or> c = CHR 0x0A)"

definition skipWS :: "string \<Rightarrow> string" where
  "skipWS s = dropWhile isJSONSpace s"

definition jsonElement :: "string \<Rightarrow> (string \<times> string) option" where
  "jsonElement s =
     (case s of
        [] \<Rightarrow> None
      | c # cs \<Rightarrow>
          if c = CHR 0x22 then unquote cs
          else if take 4 s = ''null'' then Some ([], drop 4 s)
          else None)"

text \<open>What follows an element is shorter than the input the element was read from;
  the loop over the elements terminates for that reason.\<close>

lemma unquote_shorter: "unquote s = Some (t, r) \<Longrightarrow> length r < length s"
proof (induction s arbitrary: t r rule: unquote.induct)
  case 1
  then show ?case by simp
next
  case (2 c cs)
  show ?case
  proof (cases "unquoteStep (c # cs)")
    case Closing
    with "2.prems" show ?thesis by simp
  next
    case Invalid
    with "2.prems" show ?thesis by simp
  next
    case (Emit b k)
    with "2.prems" obtain t' where u: "unquote (drop (k - 1) cs) = Some (t', r)"
      by (auto split: option.splits)
    from "2.IH" [OF Emit u] show ?thesis by simp
  qed
qed

lemma length_skipWS: "length (skipWS s) \<le> length s"
  by (simp add: skipWS_def length_dropWhile_le)

lemma jsonElement_shorter: "jsonElement s = Some (e, r) \<Longrightarrow> length r < length s"
  by (auto simp: jsonElement_def split: list.splits if_splits dest: unquote_shorter)

text \<open>The elements after the opening bracket, up to the closing bracket and the end
  of the input.\<close>

function jsonElements :: "string \<Rightarrow> string list option" where
  "jsonElements s =
     (case jsonElement s of
        None \<Rightarrow> None
      | Some (e, r) \<Rightarrow>
          (case skipWS r of
             [] \<Rightarrow> None
           | c # r' \<Rightarrow>
               if c = CHR '','' then
                 (case jsonElements (skipWS r') of
                    None \<Rightarrow> None
                  | Some es \<Rightarrow> Some (e # es))
               else if c = CHR '']'' then (if skipWS r' = [] then Some [e] else None)
               else None))"
  by pat_completeness auto
termination
proof (relation "measure length")
  show "wf (measure length)" by simp
next
  fix s x2 e r c r'
  assume a: "jsonElement s = Some x2" "(e, r) = x2" "skipWS r = c # r'"
  then have "length r < length s" by (auto dest: jsonElement_shorter)
  moreover have "length (skipWS r') \<le> length r'" by (rule length_skipWS)
  moreover have "length r' < length r"
    using length_skipWS [of r] a(3) by simp
  ultimately show "(skipWS r', s) \<in> measure length" by simp
qed

declare jsonElements.simps [simp del]

text \<open>The whole input.\<close>

definition jsonUnmarshalStrings :: "string \<Rightarrow> string list option" where
  "jsonUnmarshalStrings data =
     (case skipWS data of
        [] \<Rightarrow> None
      | c # r \<Rightarrow>
          if c = CHR ''['' then
            (case skipWS r of
               [] \<Rightarrow> None
             | c' # r' \<Rightarrow>
                 if c' = CHR '']'' then (if skipWS r' = [] then Some [] else None)
                 else jsonElements (skipWS r))
          else if take 4 (c # r) = ''null'' \<and> skipWS (drop 4 (c # r)) = [] then Some []
          else None)"

section \<open>Account configuration\<close>

text \<open>
  \<open>parseAccountsString\<close> of the download service: the JSON array form when the
  trimmed text starts with an opening bracket and decodes, the comma separated form
  otherwise. The \<open>nil\<close> slice returned for the empty text is the empty list.
\<close>

definition parseAccountsString :: "string \<Rightarrow> string list" where
  "parseAccountsString accountsStr =
     (if accountsStr = [] then []
      else if HasPrefix (TrimSpace accountsStr) ''[''
        then (case jsonUnmarshalStrings accountsStr of
                Some jsonAccounts \<Rightarrow> jsonAccounts
              | None \<Rightarrow> Split accountsStr CHR '','')
        else Split accountsStr CHR '','')"

text \<open>
  The environment variables the services read; \<open>os.Getenv\<close> gives the empty
  string for a variable that is not set.
\<close>

record environ =
  ETC_CORP_ACCOUNTS :: string
  ETC_CORPORATE_ACCOUNTS :: string
  ETC_PERSONAL_ACCOUNTS :: string
  ETC_HEADLESS :: string

definition GetAllAccountsWithCredentials :: "environ \<Rightarrow> string list" where
  "GetAllAccountsWithCredentials env =
     (if ETC_CORP_ACCOUNTS env \<noteq> [] then parseAccountsString (ETC_CORP_ACCOUNTS env)
      else
        (let allAccounts = [];
             allAccounts = (if ETC_CORPORATE_ACCOUNTS env \<noteq> []
                            then allAccounts @ parseAccountsString (ETC_CORPORATE_ACCOUNTS env)
                            else allAccounts);
             allAccounts = (if ETC_PERSONAL_ACCOUNTS env \<noteq> []
                            then allAccounts @ parseAccountsString (ETC_PERSONAL_ACCOUNTS env)
                            else allAccounts)
         in allAccounts))"

text \<open>\<open>GetAllAccountIDs\<close>: the loop appends the first colon separated part of each
  trimmed account.\<close>

definition GetAllAccountIDs :: "environ \<Rightarrow> string list" where
  "GetAllAccountIDs env =
     foldl (\<lambda>accountIDs accountStr.
              let parts = Split (TrimSpace accountStr) CHR '':''
              in if length parts \<ge> 1 then accountIDs @ [parts ! 0] else accountIDs)
       [] (GetAllAccountsWithCredentials env)"

text \<open>
  \<open>maskAccountString\<close> of the gRPC service. The two copies of the file hold the
  same text for this function.
\<close>

definition maskAccountString :: "string \<Rightarrow> string" where
  "maskAccountString accountStr =
     (if accountStr = [] then []
      else Join (map (\<lambda>account.
                   let parts = Split account CHR '':''
                   in if length parts \<ge> 2 then parts ! 0 @ '':*******'' else account)
                 (Split accountStr CHR '','')) CHR '','')"

text \<open>
  What the specification says of one credential pair: the password segment is replaced
  by seven asterisks and the account id is kept; a pair without a password segment
  passes through.
\<close>

definition maskPair_spec :: "string \<Rightarrow> string" where
  "maskPair_spec pair =
     (if CHR '':'' \<in> set pair
      then takeWhile (\<lambda>c. c \<noteq> CHR '':'') pair @ CHR '':'' # replicate 7 CHR ''*''
      else pair)"

text \<open>
  What the specification says of the credential parser: the array form when the trimmed
  text starts with a bracket and parses as an array of strings, the comma separated
  form otherwise.
\<close>

definition parseAccounts_spec :: "string \<Rightarrow> string list" where
  "parseAccounts_spec raw =
     (case (if HasPrefix (TrimSpace raw) ''['' then jsonUnmarshalStrings raw else None) of
        Some accounts \<Rightarrow> accounts
      | None \<Rightarrow> Split raw CHR '','')"

text \<open>
  The array form as the comment of \<open>parseAccountsString\<close> shows it
  (\<open>["user1:pass1","user2:pass2"]\<close>): the accounts between double quotes, separated by
  commas, between brackets. A byte is plain when a JSON string literal holds it as
  itself, that is a byte from 0x20 to 0x7F other than the double quote and the
  backslash.
\<close>

definition plainByte :: "char \<Rightarrow> bool" where
  "plainByte c =
     (0x20 \<le> (of_char c :: nat) \<and> (of_char c :: nat) < 0x80 \<and> c \<noteq> CHR 0x22 \<and> c \<noteq> CHR 0x5C)"

definition quoted :: "string \<Rightarrow> string" where
  "quoted a = CHR 0x22 # a @ [CHR 0x22]"

definition arrayLiteral :: "string list \<Rightarrow> string" where
  "arrayLiteral accounts = CHR ''['' # Join (map quoted accounts) CHR '','' @ [CHR '']'']"

section \<open>The log ring buffer\<close>

text \<open>
  \<open>LogBuffer\<close> of the gRPC service: the lines held and the capacity. The mutex only
  makes each method atomic, so a method is a function on the buffer.
\<close>

record LogBuffer =
  lines :: "string list"
  maxLines :: int

text \<open>
  \<open>NewLogBuffer\<close> allocates \<open>make([]string, 0, maxLines)\<close>, which panics for a
  negative capacity: no buffer is returned then.
\<close>

definition NewLogBuffer :: "int \<Rightarrow> LogBuffer option" where
  "NewLogBuffer n = (if n < 0 then None else Some \<lparr>lines = [], maxLines = n\<rparr>)"

text \<open>\<open>Add\<close>: append, then drop the first line when the length exceeds the capacity.\<close>

definition Add :: "LogBuffer \<Rightarrow> string \<Rightarrow> LogBuffer" where
  "Add lb line =
     (let ls = lines lb @ [line]
      in lb\<lparr>lines := (if int (length ls) > maxLines lb then tl ls else ls)\<rparr>)"

text \<open>
  \<open>GetTail\<close>: \<open>n\<close> is replaced by the length when it is not positive or too large,
  \<open>start\<close> is clamped at 0, and the result is a fresh slice of \<open>n\<close> empty strings
  over which \<open>copy\<close> writes as many lines of \<open>lines[start:]\<close> as fit.
\<close>

definition GetTail :: "LogBuffer \<Rightarrow> int \<Rightarrow> string list" where
  "GetTail lb n0 =
     (let len = int (length (lines lb));
          n = (if n0 \<le> 0 \<or> n0 > len then len else n0);
          start0 = len - n;
          start = (if start0 < 0 then 0 else start0);
          src = drop (nat start) (lines lb)
      in take (nat n) src @ replicate (nat n - length src) [])"

text \<open>\<open>GetAll\<close>: a copy of every line.\<close>

definition GetAll :: "LogBuffer \<Rightarrow> string list" where
  "GetAll lb = take (length (lines lb)) (lines lb)"

text \<open>Adding a sequence of lines, one \<open>Add\<close> after the other.\<close>

definition AddAll :: "LogBuffer \<Rightarrow> string list \<Rightarrow> LogBuffer" where
  "AddAll lb ls = foldl Add lb ls"

section \<open>Headless mode\<close>

text \<open>
  \<open>strconv.ParseBool\<close> of the Go standard library: it accepts exactly the twelve
  spellings below and returns an error (here \<open>None\<close>) for every other string.
\<close>

definition ParseBool :: "string \<Rightarrow> bool option" where
  "ParseBool str =
     (if str \<in> set [''1'', ''t'', ''T'', ''TRUE'', ''true'', ''True''] then Some True
      else if str \<in> set [''0'', ''f'', ''F'', ''FALSE'', ''false'', ''False''] then Some False
      else None)"

text \<open>
  \<open>GetHeadlessMode\<close>, as a function of the value of \<open>ETC_HEADLESS\<close>.
\<close>

definition GetHeadlessMode :: "string \<Rightarrow> bool" where
  "GetHeadlessMode headlessEnv =
     (if headlessEnv = [] then True
      else (case ParseBool headlessEnv of
              None \<Rightarrow> True
            | Some headless \<Rightarrow> headless))"

section \<open>The progress computation\<close>

text \<open>
  The loop computes \<open>int(float64(i+1) / float64(totalAccounts) * 100)\<close>. Each of
  the conversions, the division and the multiplication rounds its exact result to the
  nearest float64, ties to even. A positive float64 is modelled by a fraction of two
  naturals; \<open>round64 n d\<close> is the float64 nearest to \<open>n / d\<close>: with
  \<open>2^e \<le> n / d < 2^(e+1)\<close> it is the multiple of \<open>2^(e-52)\<close> nearest to \<open>n / d\<close>.
  The values that occur lie between \<open>2^-63\<close> and \<open>2^70\<close>, far from the
  subnormal numbers and from overflow. \<open>bitLen\<close> is the number of binary digits.
  The division is only run inside the loop, where \<open>totalAccounts\<close> is positive.
\<close>

fun bitLen :: "nat \<Rightarrow> nat" where
  "bitLen n = (if n = 0 then 0 else Suc (bitLen (n div 2)))"

declare bitLen.simps [simp del]

type_synonym float64 = "nat \<times> nat"

text \<open>The integer nearest to \<open>n / d\<close>, the even one of two that are equally near.\<close>

definition roundHalfEven :: "nat \<Rightarrow> nat \<Rightarrow> nat" where
  "roundHalfEven n d =
     (let q = n div d; r = n mod d
      in if 2 * r < d then q
         else if d < 2 * r then q + 1
         else if even q then q else q + 1)"

text \<open>The fraction \<open>x / 2^s\<close>, for an exponent \<open>s\<close> of either sign.\<close>

definition scale2 :: "nat \<times> nat \<Rightarrow> int \<Rightarrow> nat \<times> nat" where
  "scale2 x s =
     (if 0 \<le> s then (fst x, snd x * 2 ^ nat s) else (fst x * 2 ^ nat (- s), snd x))"

text \<open>The exponent \<open>e\<close> with \<open>2^e \<le> n / d < 2^(e+1)\<close>, for positive \<open>n\<close> and
  \<open>d\<close>: the difference of the bit lengths or one less.\<close>

definition exponentOf :: "nat \<Rightarrow> nat \<Rightarrow> int" where
  "exponentOf n d =
     (let k = int (bitLen n) - int (bitLen d);
          x = scale2 (n, d) k
      in if snd x \<le> fst x then k else k - 1)"

text \<open>Rounding to 53 significant bits.\<close>

definition round64 :: "nat \<Rightarrow> nat \<Rightarrow> float64" where
  "round64 n d =
     (if n = 0 then (0, 1)
      else (let s = exponentOf n d - 52;
                x = scale2 (n, d) s
            in scale2 (roundHalfEven (fst x) (snd x), 1) (- s)))"

text \<open>
  The conversion \<open>float64(n)\<close> of a non-negative \<open>int\<close>, the division and the
  multiplication of two positive float64 values, and the conversion \<open>int(x)\<close>, which
  truncates.
\<close>

definition float64_of_int :: "nat \<Rightarrow> float64" where
  "float64_of_int n = round64 n 1"

definition fdiv :: "float64 \<Rightarrow> float64 \<Rightarrow> float64" where
  "fdiv x y = round64 (fst x * snd y) (snd x * fst y)"

definition fmul :: "float64 \<Rightarrow> float64 \<Rightarrow> float64" where
  "fmul x y = round64 (fst x * fst y) (snd x * snd y)"

definition int_of_float64 :: "float64 \<Rightarrow> int" where
  "int_of_float64 x = int (fst x div snd x)"

text \<open>The progress stored for the account of index \<open>i\<close>; the constant 100 is the
  float64 100.\<close>

definition progressOf :: "nat \<Rightarrow> nat \<Rightarrow> int" where
  "progressOf i totalAccounts =
     int_of_float64
       (fmul (fdiv (float64_of_int (i + 1)) (float64_of_int totalAccounts)) (float64_of_int 100))"

text \<open>The real number a fraction stands for, and rounding a real to the nearest
  integer, ties to even; both are used to state what \<open>round64\<close> computes.\<close>

definition val :: "float64 \<Rightarrow> real" where
  "val x = real (fst x) / real (snd x)"

definition rne :: "real \<Rightarrow> int" where
  "rne x =
     (let f = \<lfloor>x\<rfloor>; d = x - of_int f
      in if d < 1 / 2 then f else if 1 / 2 < d then f + 1 else if even f then f else f + 1)"

section \<open>The job store\<close>

text \<open>
  \<open>DownloadJob\<close>. Progress and the record count are Go \<open>int\<close>s; the values
  stored are between 0 and 100, so no arithmetic on them overflows. A time is a natural
  number, and the nil pointer of \<open>CompletedAt\<close> is \<open>None\<close>.
\<close>

record DownloadJob =
  ID :: string
  Status :: string
  Progress :: int
  TotalRecords :: int
  ErrorMessage :: string
  StartedAt :: nat
  CompletedAt :: "nat option"

text \<open>
  The map \<open>jobs\<close> of the service. It holds pointers, but every read and write of a
  job goes through the map under the mutex and \<open>GetJobStatus\<close> returns a copy, so a
  map to job values has the same behaviour.
\<close>

type_synonym jobs = "string \<rightharpoonup> DownloadJob"

definition updateJobProgress :: "jobs \<Rightarrow> string \<Rightarrow> int \<Rightarrow> jobs" where
  "updateJobProgress js jobID progress =
     (case js jobID of
        None \<Rightarrow> js
      | Some job \<Rightarrow> js(jobID \<mapsto> job\<lparr>Progress := progress\<rparr>))"

text \<open>\<open>updateJobStatus\<close>; \<open>now\<close> is the value of \<open>time.Now()\<close>.\<close>

definition updateJobStatus :: "jobs \<Rightarrow> string \<Rightarrow> string \<Rightarrow> int \<Rightarrow> string \<Rightarrow> nat \<Rightarrow> jobs" where
  "updateJobStatus js jobID status progress errorMsg now =
     (case js jobID of
        None \<Rightarrow> js
      | Some job \<Rightarrow>
          (let job = job\<lparr>Status := status, Progress := progress\<rparr>;
               job = (if errorMsg \<noteq> [] then job\<lparr>ErrorMessage := errorMsg\<rparr> else job);
               job = (if status = ''completed'' \<or> status = ''failed''
                      then job\<lparr>CompletedAt := Some now\<rparr> else job)
           in js(jobID \<mapsto> job)))"

definition GetJobStatus :: "jobs \<Rightarrow> string \<Rightarrow> DownloadJob option" where
  "GetJobStatus js jobID = js jobID"

text \<open>The job as \<open>ProcessAsync\<close> creates it.\<close>

definition newJob :: "string \<Rightarrow> nat \<Rightarrow> DownloadJob" where
  "newJob jobID now =
     \<lparr>ID = jobID, Status = ''processing'', Progress = 0, TotalRecords = 0,
      ErrorMessage = [], StartedAt = now, CompletedAt = None\<rparr>"

text \<open>The part of \<open>ProcessAsync\<close> that runs before the goroutine is started: the
  job is stored as processing.\<close>

definition registerJob :: "jobs \<Rightarrow> string \<Rightarrow> nat \<Rightarrow> jobs" where
  "registerJob js jobID now =
     js(jobID \<mapsto> \<lparr>ID = jobID, Status = ''processing'', Progress = 0, TotalRecords = 0,
                   ErrorMessage = [], StartedAt = now, CompletedAt = None\<rparr>)"

text \<open>The write at the end of the goroutine, after the loop.\<close>

definition completeJob :: "jobs \<Rightarrow> string \<Rightarrow> nat \<Rightarrow> jobs" where
  "completeJob js jobID now =
     (case js jobID of
        None \<Rightarrow> js
      | Some job \<Rightarrow>
          js(jobID \<mapsto> job\<lparr>Status := ''completed'', Progress := 100, CompletedAt := Some now\<rparr>))"

text \<open>
  The writes to the store: the registration by \<open>ProcessAsync\<close>, a call of
  \<open>updateJobProgress\<close>, a call of \<open>updateJobStatus\<close>, and the completion at the
  end of the goroutine. Each is atomic under the mutex, so an execution of the service,
  with any number of jobs running, is a sequence of these writes.
\<close>

datatype storeOp =
    Register string nat
  | SetProgress string int
  | SetStatus string string int string nat
  | Complete string nat

fun applyOp :: "storeOp \<Rightarrow> jobs \<Rightarrow> jobs" where
  "applyOp (Register jobID now) js = registerJob js jobID now"
| "applyOp (SetProgress jobID progress) js = updateJobProgress js jobID progress"
| "applyOp (SetStatus jobID status progress errorMsg now) js =
     updateJobStatus js jobID status progress errorMsg now"
| "applyOp (Complete jobID now) js = completeJob js jobID now"

text \<open>The job a write is made to.\<close>

fun opJob :: "storeOp \<Rightarrow> string" where
  "opJob (Register jobID now) = jobID"
| "opJob (SetProgress jobID progress) = jobID"
| "opJob (SetStatus jobID status progress errorMsg now) = jobID"
| "opJob (Complete jobID now) = jobID"

text \<open>The store after each write of a sequence, the starting store first.\<close>

fun storeTrace :: "jobs \<Rightarrow> storeOp list \<Rightarrow> jobs list" where
  "storeTrace js [] = [js]"
| "storeTrace js (op # ops) = js # storeTrace (applyOp op js) ops"

definition terminal :: "string \<Rightarrow> bool" where
  "terminal status = (status = ''completed'' \<or> status = ''failed'')"

text \<open>
  The service calls \<open>updateJobStatus\<close> in one place, the recover handler of
  \<open>ProcessAsync\<close>, and there with the status \<open>failed\<close>. The writes considered are
  the calls of \<open>updateJobStatus\<close> with either terminal status, with any progress and
  message, and every write of the other three kinds.
\<close>

fun issued :: "storeOp \<Rightarrow> bool" where
  "issued (SetStatus jobID status progress errorMsg now) = terminal status"
| "issued (Register jobID now) = True"
| "issued (SetProgress jobID progress) = True"
| "issued (Complete jobID now) = True"

text \<open>The stores that such writes reach from the empty map of a new service.\<close>

inductive reachable :: "jobs \<Rightarrow> bool" where
  reachable_new: "reachable Map.empty"
| reachable_op: "reachable js \<Longrightarrow> issued op \<Longrightarrow> reachable (applyOp op js)"

text \<open>What successive status queries for one job see in a sequence of stores.\<close>

definition observed :: "string \<Rightarrow> jobs list \<Rightarrow> DownloadJob list" where
  "observed jobID stores = List.map_filter (\<lambda>js. GetJobStatus js jobID) stores"

section \<open>Retrieval for one account\<close>

text \<open>
  A call either returns or panics; the panic value is kept as the text that \<open>%v\<close>
  prints for it. (A panic with a nil value is, from Go 1.21 on, a panic with a runtime
  error as its value, so the recover handler sees a value for every panic.)
\<close>

datatype 'a outcome = Returns 'a | Panics string

text \<open>
  Modelled from the spec: package \<open>scraper\<close> and the \<open>ScraperFactory\<close> interface are
  not among the sources. They are the Retrieval Capability of the specification, with
  the operations initialize, login, fetch and close, and are taken as a parameter: a
  factory gives, for a configuration, an error or a scraper, and a scraper is what each
  of its methods does when called. An error is its message.
\<close>

record ScraperConfig =
  UserID :: string
  Password :: string
  DownloadPath :: string
  SessionFolder :: string
  Headless :: bool
  Timeout :: int
  RetryCount :: int

record Scraper =
  Initialize :: "string option outcome"
  Login :: "string option outcome"
  DownloadMeisai :: "string \<Rightarrow> string \<Rightarrow> (string + string) outcome"
  Close :: "unit outcome"

type_synonym ScraperFactory = "ScraperConfig \<Rightarrow> (string + Scraper) outcome"

text \<open>The errors \<open>downloadAccountData\<close> returns, one for each \<open>fmt.Errorf\<close>.\<close>

datatype downloadError =
    InvalidAccountFormat string
  | CreateScraperFailed string
  | InitializeFailed string
  | LoginFailed string string
  | DownloadFailed string string

text \<open>The lines passed to \<open>logMessage\<close>, and the line the recover handler prints.\<close>

datatype logLine =
    LogStarting string nat string string
  | LogError string downloadError
  | LogSuccess string string
  | LogCompleted string
  | LogPanic string string

text \<open>
  The first lines of \<open>downloadAccountData\<close>: the account is split at every colon,
  fewer than two parts are an error, and the first two parts are the credentials.
\<close>

definition credentials :: "string \<Rightarrow> downloadError + string \<times> string" where
  "credentials accountID =
     (let parts = Split accountID CHR '':''
      in if length parts < 2 then Inl (InvalidAccountFormat accountID)
         else Inr (parts ! 0, parts ! 1))"

text \<open>The deferred \<open>Close\<close>: it runs when the function returns or panics, and a
  panic of its own is the one that leaves the function.\<close>

definition deferClose :: "Scraper \<Rightarrow> logLine list \<times> downloadError option outcome
    \<Rightarrow> logLine list \<times> downloadError option outcome" where
  "deferClose etcScraper r =
     (case Close etcScraper of
        Panics v \<Rightarrow> (fst r, Panics v)
      | Returns _ \<Rightarrow> r)"

text \<open>
  \<open>downloadAccountData\<close>: the lines it logs and the error it returns (\<open>None\<close> for
  \<open>nil\<close>), or the panic that leaves it. \<open>headlessEnv\<close> is the value of
  \<open>ETC_HEADLESS\<close>.
\<close>

definition downloadAccountData :: "ScraperFactory \<Rightarrow> string \<Rightarrow> string \<Rightarrow> string \<Rightarrow> string \<Rightarrow> string
    \<Rightarrow> logLine list \<times> downloadError option outcome" where
  "downloadAccountData scraperFactory headlessEnv accountID fromDate toDate sessionFolder =
     (case credentials accountID of
        Inl err \<Rightarrow> ([], Returns (Some err))
      | Inr (userID, password) \<Rightarrow>
          (let config = \<lparr>UserID = userID, Password = password, DownloadPath = ''./downloads'',
                         SessionFolder = sessionFolder, Headless = GetHeadlessMode headlessEnv,
                         Timeout = 30000, RetryCount = 3\<rparr>
           in case scraperFactory config of
                Panics v \<Rightarrow> ([], Panics v)
              | Returns (Inl err) \<Rightarrow> ([], Returns (Some (CreateScraperFailed err)))
              | Returns (Inr etcScraper) \<Rightarrow>
                  deferClose etcScraper
                    (case Initialize etcScraper of
                       Panics v \<Rightarrow> ([], Panics v)
                     | Returns (Some err) \<Rightarrow> ([], Returns (Some (InitializeFailed err)))
                     | Returns None \<Rightarrow>
                         (case Login etcScraper of
                            Panics v \<Rightarrow> ([], Panics v)
                          | Returns (Some err) \<Rightarrow> ([], Returns (Some (LoginFailed userID err)))
                          | Returns None \<Rightarrow>
                              (case DownloadMeisai etcScraper fromDate toDate of
                                 Panics v \<Rightarrow> ([], Panics v)
                               | Returns (Inl err) \<Rightarrow>
                                   ([], Returns (Some (DownloadFailed userID err)))
                               | Returns (Inr csvPath) \<Rightarrow>
                                   ([LogSuccess userID csvPath], Returns None))))))"

section \<open>The orchestrator\<close>

text \<open>
  The loop over the accounts, from index \<open>i\<close>: the writes to the store, the lines
  logged, and the panic that ended the loop if there was one. An error of an account is
  logged and the loop goes on; a panic leaves the loop after the progress update. The
  sleep of one second after each account changes nothing of this.
\<close>

fun accountLoop :: "ScraperFactory \<Rightarrow> string \<Rightarrow> string \<Rightarrow> string \<Rightarrow> string \<Rightarrow> string \<Rightarrow> nat \<Rightarrow> nat
    \<Rightarrow> string list \<Rightarrow> storeOp list \<times> logLine list \<times> string option" where
  "accountLoop scraperFactory headlessEnv jobID fromDate toDate sessionFolder totalAccounts i [] =
     ([], [], None)"
| "accountLoop scraperFactory headlessEnv jobID fromDate toDate sessionFolder totalAccounts i
     (account # accounts) =
     (let progress = progressOf i totalAccounts;
          r = downloadAccountData scraperFactory headlessEnv account fromDate toDate sessionFolder
      in case snd r of
           Panics v \<Rightarrow> ([SetProgress jobID progress], fst r, Some v)
         | Returns err \<Rightarrow>
             (let rest = accountLoop scraperFactory headlessEnv jobID fromDate toDate
                           sessionFolder totalAccounts (i + 1) accounts
              in (SetProgress jobID progress # fst rest,
                  fst r @ (case err of None \<Rightarrow> [] | Some e \<Rightarrow> [LogError account e])
                    @ fst (snd rest),
                  snd (snd rest))))"

text \<open>
  The goroutine of \<open>ProcessAsync\<close> with its recover handler: the start line, the
  loop, and then either the completion or, after a panic, the failure. \<open>sessionStamp\<close>
  is the formatted time of the session folder and \<open>now\<close> the time of the last write.
\<close>

definition asyncUnit :: "ScraperFactory \<Rightarrow> string \<Rightarrow> string \<Rightarrow> string list \<Rightarrow> string \<Rightarrow> string \<Rightarrow> string
    \<Rightarrow> nat \<Rightarrow> storeOp list \<times> logLine list" where
  "asyncUnit scraperFactory headlessEnv jobID accounts fromDate toDate sessionStamp now =
     (let sessionFolder = ''./downloads/'' @ sessionStamp;
          totalAccounts = length accounts;
          r = accountLoop scraperFactory headlessEnv jobID fromDate toDate sessionFolder
                totalAccounts 0 accounts;
          start = LogStarting jobID (length accounts) fromDate toDate
      in case snd (snd r) of
           None \<Rightarrow> (fst r @ [Complete jobID now], start # fst (snd r) @ [LogCompleted jobID])
         | Some v \<Rightarrow>
             (fst r @ [SetStatus jobID ''failed'' 0 (''Internal error: '' @ v) now],
              start # fst (snd r) @ [LogPanic jobID v]))"

text \<open>The panic that the recover handler of the goroutine catches, if there is one.\<close>

definition unitPanic :: "ScraperFactory \<Rightarrow> string \<Rightarrow> string \<Rightarrow> string list \<Rightarrow> string \<Rightarrow> string \<Rightarrow> string
    \<Rightarrow> string option" where
  "unitPanic scraperFactory headlessEnv jobID accounts fromDate toDate sessionStamp =
     snd (snd (accountLoop scraperFactory headlessEnv jobID fromDate toDate
                 (''./downloads/'' @ sessionStamp) (length accounts) 0 accounts))"

text \<open>
  \<open>ProcessAsync\<close> on a store, with no other job writing in between: the store when
  the call returns, followed by the store after each write of the goroutine. A write to
  another job leaves the record of this job as it is, so the writes of other jobs add
  nothing but repetitions to what a query for this job sees.
\<close>

definition ProcessAsync :: "ScraperFactory \<Rightarrow> string \<Rightarrow> jobs \<Rightarrow> string \<Rightarrow> string list \<Rightarrow> string \<Rightarrow> string
    \<Rightarrow> nat \<Rightarrow> string \<Rightarrow> nat \<Rightarrow> jobs list" where
  "ProcessAsync scraperFactory headlessEnv js jobID accounts fromDate toDate startedAt
     sessionStamp now =
     storeTrace (registerJob js jobID startedAt)
       (fst (asyncUnit scraperFactory headlessEnv jobID accounts fromDate toDate sessionStamp now))"

section \<open>The gRPC service\<close>

record DownloadRequest =
  Accounts :: "string list"
  FromDate :: string
  ToDate :: string

record DownloadJobResponse =
  JobId :: string
  Status_resp :: string
  Message :: string

text \<open>\<open>setDefaultDates\<close>; \<open>today\<close> and \<open>lastMonth\<close> are the two formatted dates.\<close>

definition setDefaultDates :: "string \<Rightarrow> string \<Rightarrow> string \<Rightarrow> string \<Rightarrow> string \<times> string" where
  "setDefaultDates today lastMonth fromDate toDate =
     (let toDate = (if toDate = [] then today else toDate);
          fromDate = (if fromDate = [] then lastMonth else fromDate)
      in (fromDate, toDate))"

text \<open>What \<open>DownloadAsync\<close> hands to \<open>ProcessAsync\<close>.\<close>

record started =
  startedJobID :: string
  startedAccounts :: "string list"
  startedFromDate :: string
  startedToDate :: string

text \<open>
  \<open>DownloadAsync\<close> as the file with the log buffer has it. \<open>newUUID\<close> is the
  string of \<open>uuid.New()\<close> and \<open>now\<close> the time of the registration. The result is
  the response, the store when the call returns, and what was handed to
  \<open>ProcessAsync\<close>, if it was called.
\<close>

definition DownloadAsync :: "environ \<Rightarrow> string \<Rightarrow> string \<Rightarrow> string \<Rightarrow> nat \<Rightarrow> jobs \<Rightarrow> DownloadRequest
    \<Rightarrow> DownloadJobResponse \<times> jobs \<times> started option" where
  "DownloadAsync env today lastMonth newUUID now js req =
     (let dates = setDefaultDates today lastMonth (FromDate req) (ToDate req);
          accounts = (if length (Accounts req) = 0 then GetAllAccountsWithCredentials env
                      else Accounts req)
      in if length (Accounts req) = 0 \<and> length accounts = 0
         then (\<lparr>JobId = [], Status_resp = ''failed'', Message = ''No accounts configured''\<rparr>,
               js, None)
         else (\<lparr>JobId = newUUID, Status_resp = ''pending'', Message = ''Download job started''\<rparr>,
               registerJob js newUUID now,
               Some \<lparr>startedJobID = newUUID, startedAccounts = accounts,
                      startedFromDate = fst dates, startedToDate = snd dates\<rparr>))"

text \<open>\<open>DownloadAsync\<close> as \<open>download_service_grpc.go\<close> has it: the fallback is
  \<open>GetAllAccountIDs\<close>.\<close>

definition DownloadAsync_ids :: "environ \<Rightarrow> string \<Rightarrow> string \<Rightarrow> string \<Rightarrow> nat \<Rightarrow> jobs \<Rightarrow> DownloadRequest
    \<Rightarrow> DownloadJobResponse \<times> jobs \<times> started option" where
  "DownloadAsync_ids env today lastMonth newUUID now js req =
     (let dates = setDefaultDates today lastMonth (FromDate req) (ToDate req);
          accounts = (if length (Accounts req) = 0 then GetAllAccountIDs env
                      else Accounts req)
      in if length (Accounts req) = 0 \<and> length accounts = 0
         then (\<lparr>JobId = [], Status_resp = ''failed'', Message = ''No accounts configured''\<rparr>,
               js, None)
         else (\<lparr>JobId = newUUID, Status_resp = ''pending'', Message = ''Download job started''\<rparr>,
               registerJob js newUUID now,
               Some \<lparr>startedJobID = newUUID, startedAccounts = accounts,
                      startedFromDate = fst dates, startedToDate = snd dates\<rparr>))"

section \<open>Properties of splitting and joining\<close>

lemma Split_not_Nil: "Split s c \<noteq> []"
  by (induction s) (auto split: list.splits)

lemma Split_unfold:
  "Split s c = takeWhile (\<lambda>x. x \<noteq> c) s #
     (if c \<in> set s then Split (tl (dropWhile (\<lambda>x. x \<noteq> c) s)) c else [])"
  by (induction s) (auto split: list.splits simp: Split_not_Nil)

lemma nth0_Split: "Split s c ! 0 = takeWhile (\<lambda>x. x \<noteq> c) s"
  by (subst Split_unfold) simp

lemma length_Split_ge2: "2 \<le> length (Split s c) \<longleftrightarrow> c \<in> set s"
  using Split_not_Nil [of "tl (dropWhile (\<lambda>x. x \<noteq> c) s)" c]
  by (subst Split_unfold) (cases "Split (tl (dropWhile (\<lambda>x. x \<noteq> c) s)) c"; simp)

lemma sep_notin_Split: "p \<in> set (Split s c) \<Longrightarrow> c \<notin> set p"
  by (induction s arbitrary: p) (auto split: list.splits if_splits)

lemma Join_Cons_Cons: "Join ((x # a) # es) c = x # Join (a # es) c"
  by (cases es) simp_all

lemma Join_Split: "Join (Split s c) c = s"
proof (induction s)
  case Nil
  then show ?case by simp
next
  case (Cons x s)
  show ?case
  proof (cases "Split s c")
    case Nil
    then show ?thesis by (simp add: Split_not_Nil)
  next
    case (Cons p ps)
    with Cons.IH have "Join (p # ps) c = s" by simp
    then show ?thesis using Cons by (simp add: Join_Cons_Cons)
  qed
qed

lemma Split_Join:
  "xs \<noteq> [] \<Longrightarrow> (\<And>x. x \<in> set xs \<Longrightarrow> c \<notin> set x) \<Longrightarrow> Split (Join xs c) c = xs"
proof (induction xs c rule: Join.induct)
  case (1 sep)
  then show ?case by simp
next
  case (2 e sep)
  then have "sep \<notin> set e" by simp
  then show ?case by (induction e) (auto split: list.splits)
next
  case (3 e e' es sep)
  then have e: "sep \<notin> set e" and IH: "Split (Join (e' # es) sep) sep = e' # es" by auto
  from e show ?case using IH
    by (induction e) (auto split: list.splits)
qed

section \<open>Properties of the masking\<close>

lemma mask_entry_eq:
  "(let parts = Split account CHR '':''
    in if length parts \<ge> 2 then parts ! 0 @ '':*******'' else account) = maskPair_spec account"
proof -
  have "2 \<le> length (Split account CHR '':'') \<longleftrightarrow> CHR '':'' \<in> set account"
    by (rule length_Split_ge2)
  then show ?thesis
    by (simp add: Let_def nth0_Split maskPair_spec_def eval_nat_numeral)
qed

lemma maskAccountString_Join:
  "maskAccountString s = Join (map maskPair_spec (Split s CHR '','')) CHR '',''"
proof (cases "s = []")
  case True
  then show ?thesis by (simp add: maskAccountString_def maskPair_spec_def)
next
  case False
  then show ?thesis by (simp add: maskAccountString_def mask_entry_eq)
qed

lemma comma_notin_maskPair: "CHR '','' \<notin> set p \<Longrightarrow> CHR '','' \<notin> set (maskPair_spec p)"
  by (auto simp: maskPair_spec_def eval_nat_numeral dest: set_takeWhileD)

text \<open>
  Claim C7. Masking a comma separated account string masks every entry on its own and
  keeps the entries and their order: the entries of the result are the entries of the
  input with, in each entry that has a colon, everything after the account id replaced
  by a colon and seven asterisks, and each entry without a colon unchanged. Masking
  \<open>alice:secret,bob:hunter2\<close> gives \<open>alice:*******,bob:*******\<close>.
\<close>

theorem maskAccountString_masks_every_pair:
  "Split (maskAccountString s) CHR '','' = map maskPair_spec (Split s CHR '','') \<and>
   maskAccountString s = Join (map maskPair_spec (Split s CHR '','')) CHR '','' \<and>
   maskAccountString ''alice:secret,bob:hunter2'' = ''alice:*******,bob:*******''"
proof -
  have "Split (Join (map maskPair_spec (Split s CHR '','')) CHR '','') CHR '',''
          = map maskPair_spec (Split s CHR '','')"
    by (rule Split_Join) (auto simp: Split_not_Nil dest: sep_notin_Split comma_notin_maskPair)
  moreover have "maskAccountString ''alice:secret,bob:hunter2'' = ''alice:*******,bob:*******''"
    by (simp add: maskAccountString_def)
  ultimately show ?thesis
    by (simp add: maskAccountString_Join)
qed

section \<open>Properties of the log ring buffer\<close>

lemma lines_Add:
  "lines (Add lb l) =
     (if int (length (lines lb)) + 1 > maxLines lb then tl (lines lb @ [l]) else lines lb @ [l])"
  by (simp add: Add_def Let_def)

lemma maxLines_Add: "maxLines (Add lb l) = maxLines lb"
  by (simp add: Add_def Let_def)

lemma maxLines_foldl_Add: "maxLines (foldl Add lb ls) = maxLines lb"
  by (induction ls arbitrary: lb) (simp_all add: maxLines_Add)

text \<open>A buffer that is within its capacity holds the last \<open>maxLines\<close> lines of
  everything it has received.\<close>

lemma lines_foldl_Add:
  assumes "int (length (lines lb)) \<le> maxLines lb"
  shows "lines (foldl Add lb ls) =
           drop (length (lines lb @ ls) - nat (maxLines lb)) (lines lb @ ls)"
  using assms
proof (induction ls arbitrary: lb)
  case Nil
  then show ?case by simp
next
  case (Cons l ls)
  let ?lb = "Add lb l"
  have cap: "int (length (lines ?lb)) \<le> maxLines ?lb"
    using Cons.prems by (auto simp: lines_Add maxLines_Add)
  have step: "lines (foldl Add ?lb ls) =
      drop (length (lines ?lb @ ls) - nat (maxLines lb)) (lines ?lb @ ls)"
    using Cons.IH [OF cap] by (simp add: maxLines_Add)
  show ?case
  proof (cases "int (length (lines lb)) + 1 > maxLines lb")
    case True
    with Cons.prems have full: "length (lines lb) = nat (maxLines lb)" by linarith
    have l1: "lines ?lb = tl (lines lb @ [l])" using True by (simp add: lines_Add)
    have app: "tl (lines lb @ [l]) @ ls = drop 1 (lines lb @ l # ls)"
      by (cases "lines lb") (simp_all add: drop_Suc)
    have len: "length (drop 1 (lines lb @ l # ls)) - nat (maxLines lb) = length ls"
      using full by simp
    have "lines (foldl Add ?lb ls) = drop (length ls) (drop 1 (lines lb @ l # ls))"
      using step len by (simp only: l1 app)
    also have "\<dots> = drop (length ls + 1) (lines lb @ l # ls)"
      by (simp only: drop_drop)
    also have "length ls + 1 = length (lines lb @ l # ls) - nat (maxLines lb)"
      using full by simp
    finally show ?thesis by simp
  next
    case False
    then have l2: "lines ?lb = lines lb @ [l]" by (simp add: lines_Add)
    show ?thesis using step l2 by simp
  qed
qed

lemma GetTail_eq:
  "GetTail lb n =
     (if n \<le> 0 then lines lb
      else drop (length (lines lb) - min (nat n) (length (lines lb))) (lines lb))"
proof -
  have eq: "nat (int k - n) = k - nat n" if "0 < n" for k :: nat
    using that by linarith
  show ?thesis
    by (auto simp: GetTail_def Let_def min_def eq)
qed

text \<open>
  Claim C8. A buffer below its capacity gets the new line appended; a buffer at its
  capacity gets it appended and loses exactly its oldest line. A buffer created with
  capacity \<open>N\<close> therefore holds the last \<open>N\<close> lines of what it was given, in
  arrival order. \<open>GetTail n\<close> returns every line for \<open>n \<le> 0\<close> and the last
  \<open>min n size\<close> lines, in arrival order, otherwise.
\<close>

theorem log_buffer_fifo_and_tail:
  "(int (length (lines lb)) < maxLines lb \<longrightarrow> lines (Add lb l) = lines lb @ [l]) \<and>
   (maxLines lb \<le> int (length (lines lb)) \<longrightarrow> lines (Add lb l) = tl (lines lb @ [l])) \<and>
   (NewLogBuffer N = Some lb0 \<longrightarrow> lines (AddAll lb0 ls) = drop (length ls - nat N) ls) \<and>
   GetTail lb n =
     (if n \<le> 0 then lines lb
      else drop (length (lines lb) - min (nat n) (length (lines lb))) (lines lb))"
proof -
  have new: "lines (AddAll lb0 ls) = drop (length ls - nat N) ls" if "NewLogBuffer N = Some lb0"
  proof -
    from that have lb0: "lines lb0 = []" "maxLines lb0 = N" "0 \<le> N"
      by (auto simp: NewLogBuffer_def split: if_splits)
    then have "int (length (lines lb0)) \<le> maxLines lb0" by simp
    from lines_foldl_Add [OF this, of ls] lb0 show ?thesis
      by (simp add: AddAll_def)
  qed
  show ?thesis
    using new by (simp add: lines_Add GetTail_eq)
qed

text \<open>
  A buffer of capacity 3 that receives L1, L2, L3, L4 holds L2, L3, L4, and
  \<open>GetTail 2\<close> then returns L3, L4.
\<close>

theorem log_buffer_fifo_and_tail_witness:
  "NewLogBuffer 3 = Some \<lparr>lines = [], maxLines = 3\<rparr> \<and>
   int (length (lines \<lparr>lines = [''L1'', ''L2''], maxLines = 3\<rparr>))
     < maxLines \<lparr>lines = [''L1'', ''L2''], maxLines = 3\<rparr> \<and>
   maxLines \<lparr>lines = [''L1'', ''L2'', ''L3''], maxLines = 3\<rparr>
     \<le> int (length (lines \<lparr>lines = [''L1'', ''L2'', ''L3''], maxLines = 3\<rparr>)) \<and>
   lines (Add \<lparr>lines = [''L1'', ''L2''], maxLines = 3\<rparr> ''L3'') = [''L1'', ''L2'', ''L3''] \<and>
   lines (Add \<lparr>lines = [''L1'', ''L2'', ''L3''], maxLines = 3\<rparr> ''L4'') = [''L2'', ''L3'', ''L4''] \<and>
   lines (AddAll \<lparr>lines = [], maxLines = 3\<rparr> [''L1'', ''L2'', ''L3'', ''L4'']) =
     [''L2'', ''L3'', ''L4''] \<and>
   GetTail \<lparr>lines = [''L2'', ''L3'', ''L4''], maxLines = 3\<rparr> 2 = [''L3'', ''L4''] \<and>
   GetTail \<lparr>lines = [''L2'', ''L3'', ''L4''], maxLines = 3\<rparr> 0 = [''L2'', ''L3'', ''L4''] \<and>
   GetTail \<lparr>lines = [''L2'', ''L3'', ''L4''], maxLines = 3\<rparr> 7 = [''L2'', ''L3'', ''L4'']"
  using
    log_buffer_fifo_and_tail [of "\<lparr>lines = [''L1'', ''L2''], maxLines = 3\<rparr>" "''L3''" 3
      "\<lparr>lines = [], maxLines = 3\<rparr>" "[''L1'', ''L2'', ''L3'', ''L4'']" 2]
    log_buffer_fifo_and_tail [of "\<lparr>lines = [''L1'', ''L2'', ''L3''], maxLines = 3\<rparr>" "''L4''" 3
      "\<lparr>lines = [], maxLines = 3\<rparr>" "[''L1'', ''L2'', ''L3'', ''L4'']" 0]
    log_buffer_fifo_and_tail [of "\<lparr>lines = [''L2'', ''L3'', ''L4''], maxLines = 3\<rparr>" "''L5''" 3
      "\<lparr>lines = [], maxLines = 3\<rparr>" "[]" 2]
    log_buffer_fifo_and_tail [of "\<lparr>lines = [''L2'', ''L3'', ''L4''], maxLines = 3\<rparr>" "''L5''" 3
      "\<lparr>lines = [], maxLines = 3\<rparr>" "[]" 0]
    log_buffer_fifo_and_tail [of "\<lparr>lines = [''L2'', ''L3'', ''L4''], maxLines = 3\<rparr>" "''L5''" 3
      "\<lparr>lines = [], maxLines = 3\<rparr>" "[]" 7]
  by (simp add: NewLogBuffer_def)

section \<open>Properties of the headless flag\<close>

text \<open>The flag is off exactly for the six false spellings of \<open>ParseBool\<close>.\<close>

lemma GetHeadlessMode_False_iff:
  "GetHeadlessMode s = False \<longleftrightarrow> s \<in> {''0'', ''f'', ''F'', ''FALSE'', ''false'', ''False''}"
  by (auto simp: GetHeadlessMode_def ParseBool_def)

text \<open>
  Claim C9. The flag is true for an unset or unparsable value and false for the explicit
  false values, \<open>no\<close> among them. The code does not do that for \<open>no\<close>:
  \<open>ParseBool\<close> rejects it, so the flag is true, while \<open>false\<close> and \<open>0\<close> turn
  it off and the unset value leaves it on.
\<close>

theorem GetHeadlessMode_no_is_headless:
  "GetHeadlessMode ''no'' = True \<and> GetHeadlessMode ''false'' = False \<and>
   GetHeadlessMode ''0'' = False \<and> GetHeadlessMode [] = True"
  by (simp add: GetHeadlessMode_def ParseBool_def)

section \<open>Properties of the progress computation\<close>

lemmas float64_eval = progressOf_def int_of_float64_def fmul_def fdiv_def float64_of_int_def
  round64_def exponentOf_def scale2_def roundHalfEven_def bitLen.simps Let_def

lemma rne_mono: "x \<le> y \<Longrightarrow> rne x \<le> rne y"
proof -
  assume xy: "x \<le> y"
  then have fl: "\<lfloor>x\<rfloor> \<le> \<lfloor>y\<rfloor>" by (rule floor_mono)
  have ub: "rne x \<le> \<lfloor>x\<rfloor> + 1" and lb: "\<lfloor>y\<rfloor> \<le> rne y"
    by (auto simp: rne_def Let_def)
  show ?thesis
  proof (cases "\<lfloor>x\<rfloor> = \<lfloor>y\<rfloor>")
    case True
    then show ?thesis using xy by (auto simp: rne_def Let_def)
  next
    case False
    with fl have "\<lfloor>x\<rfloor> + 1 \<le> \<lfloor>y\<rfloor>" by simp
    with ub lb show ?thesis by linarith
  qed
qed

lemma rne_of_int: "rne (of_int k) = k"
  by (simp add: rne_def)

lemma roundHalfEven_rne:
  assumes "0 < d"
  shows "int (roundHalfEven n d) = rne (real n / real d)"
proof -
  have fl: "\<lfloor>real n / real d\<rfloor> = int (n div d)"
    by (simp add: floor_divide_of_nat_eq)
  have fr: "real n / real d - real (n div d) = real (n mod d) / real d"
  proof -
    have "real n = real d * real (n div d) + real (n mod d)"
      by (metis of_nat_add of_nat_mult mult_div_mod_eq)
    then show ?thesis using assms by (simp add: field_simps)
  qed
  have half1: "real (n mod d) / real d < 1 / 2 \<longleftrightarrow> 2 * (n mod d) < d"
    using assms by (simp add: field_simps) (metis of_nat_less_iff of_nat_mult of_nat_numeral mult.commute)
  have half2: "1 / 2 < real (n mod d) / real d \<longleftrightarrow> d < 2 * (n mod d)"
    using assms by (simp add: field_simps) (metis of_nat_less_iff of_nat_mult of_nat_numeral mult.commute)
  show ?thesis
    unfolding rne_def roundHalfEven_def Let_def fl
    using fr half1 half2 by (simp add: even_of_nat_iff)
qed


lemma snd_scale2_pos: "0 < snd x \<Longrightarrow> 0 < snd (scale2 x s)"
  by (simp add: scale2_def)

lemma fst_scale2_pos: "0 < fst x \<Longrightarrow> 0 < fst (scale2 x s)"
  by (simp add: scale2_def)

lemma val_scale2: "val (scale2 x s) = val x / 2 powi s"
  by (simp add: scale2_def val_def power_int_def field_simps)

lemma bitLen_bounds: "0 < n \<Longrightarrow> 2 ^ (bitLen n - 1) \<le> n \<and> n < 2 ^ bitLen n"
proof (induction n rule: bitLen.induct)
  case (1 n)
  show ?case
  proof (cases "n div 2 = 0")
    case True
    with "1.prems" have "n = 1" by (simp add: div_eq_0_iff)
    then show ?thesis by (simp add: bitLen.simps)
  next
    case False
    with "1.IH" "1.prems" have IH: "2 ^ (bitLen (n div 2) - 1) \<le> n div 2" "n div 2 < 2 ^ bitLen (n div 2)"
      by auto
    have pos: "0 < bitLen (n div 2)" using False by (simp add: bitLen.simps)
    have b: "bitLen n = Suc (bitLen (n div 2))" using "1.prems" by (subst bitLen.simps) simp
    have "2 ^ (bitLen n - 1) = 2 * 2 ^ (bitLen (n div 2) - 1)"
      using pos b by (cases "bitLen (n div 2)") simp_all
    also have "\<dots> \<le> 2 * (n div 2)" using IH(1) by simp
    also have "\<dots> \<le> n" by simp
    finally have lo: "2 ^ (bitLen n - 1) \<le> n" .
    have "n < 2 * (n div 2) + 2" by presburger
    also have "\<dots> \<le> 2 * 2 ^ bitLen (n div 2)" using IH(2) by simp
    finally have hi: "n < 2 ^ bitLen n" using b by simp
    from lo hi show ?thesis ..
  qed
qed

lemma exponentOf_bounds:
  assumes "0 < n" "0 < d"
  shows "2 powi (exponentOf n d) \<le> val (n, d) \<and> val (n, d) < 2 powi (exponentOf n d + 1)"
proof -
  define k where "k = int (bitLen n) - int (bitLen d)"
  define x where "x = scale2 (n, d) k"
  have dpos: "0 < snd x" using assms by (simp add: x_def snd_scale2_pos)
  have vx: "val x = val (n, d) / 2 powi k" by (simp add: x_def val_scale2)
  have ge1: "snd x \<le> fst x \<longleftrightarrow> 1 \<le> val x"
    using dpos by (simp add: val_def)
  have p2: "(0::real) < 2 powi j" for j by simp
  have ge: "snd x \<le> fst x \<longleftrightarrow> 2 powi k \<le> val (n, d)"
    unfolding ge1 vx using p2 [of k] by (simp add: field_simps)
  from bitLen_bounds [OF assms(1)] have n: "2 ^ (bitLen n - 1) \<le> real n" "real n < 2 ^ bitLen n"
    by (metis of_nat_le_iff of_nat_numeral of_nat_power, metis of_nat_less_iff of_nat_numeral of_nat_power)
  from bitLen_bounds [OF assms(2)] have d: "2 ^ (bitLen d - 1) \<le> real d" "real d < 2 ^ bitLen d"
    by (metis of_nat_le_iff of_nat_numeral of_nat_power, metis of_nat_less_iff of_nat_numeral of_nat_power)
  have bn: "0 < bitLen n" "0 < bitLen d" using assms by (simp_all add: bitLen.simps)
  have npow: "(2::real) ^ (bitLen n - 1) = 2 powi (int (bitLen n) - 1)"
             "(2::real) ^ bitLen n = 2 powi (int (bitLen n))"
             "(2::real) ^ (bitLen d - 1) = 2 powi (int (bitLen d) - 1)"
             "(2::real) ^ bitLen d = 2 powi (int (bitLen d))"
    using bn by (simp_all add: power_int_def nat_diff_distrib')
  have rd: "0 < real d" using assms by simp
  have hi: "val (n, d) < 2 powi (k + 1)"
  proof -
    have "real n * 2 powi (int (bitLen d) - 1) < 2 powi (int (bitLen n)) * real d"
      using n(2) d(1) unfolding npow
      by (intro mult_less_le_imp_less) simp_all
    then have "real n / real d < 2 powi (int (bitLen n)) / 2 powi (int (bitLen d) - 1)"
      using rd p2 by (simp add: field_simps)
    also have "\<dots> = 2 powi (int (bitLen n) - (int (bitLen d) - 1))"
      by (rule power_int_diff [symmetric]) simp
    also have "int (bitLen n) - (int (bitLen d) - 1) = k + 1"
      by (simp add: k_def)
    finally show ?thesis by (simp add: val_def)
  qed
  have lo: "2 powi (k - 1) < val (n, d)"
  proof -
    have "2 powi (int (bitLen n) - 1) * real d < real n * 2 powi (int (bitLen d))"
      using n(1) d(2) unfolding npow
      by (intro mult_le_less_imp_less) simp_all
    then have "2 powi (int (bitLen n) - 1) / 2 powi (int (bitLen d)) < real n / real d"
      using rd p2 by (simp add: field_simps)
    moreover have "2 powi (int (bitLen n) - 1) / 2 powi (int (bitLen d))
        = (2::real) powi (int (bitLen n) - 1 - int (bitLen d))"
      by (rule power_int_diff [symmetric]) simp
    moreover have "int (bitLen n) - 1 - int (bitLen d) = k - 1"
      by (simp add: k_def)
    ultimately show ?thesis by (simp add: val_def)
  qed
  have e: "exponentOf n d = (if snd x \<le> fst x then k else k - 1)"
    by (simp add: exponentOf_def Let_def k_def x_def)
  show ?thesis
  proof (cases "snd x \<le> fst x")
    case True
    then show ?thesis using ge hi e by simp
  next
    case False
    then have "val (n, d) < 2 powi k" using ge by simp
    then show ?thesis using False lo e by simp
  qed
qed


lemma snd_round64_pos: "0 < d \<Longrightarrow> 0 < snd (round64 n d)"
  by (simp add: round64_def Let_def snd_scale2_pos)

lemma val_round64:
  assumes "0 < n" "0 < d"
  shows "val (round64 n d) =
           of_int (rne (val (n, d) / 2 powi (exponentOf n d - 52))) * 2 powi (exponentOf n d - 52)"
proof -
  define s where "s = exponentOf n d - 52"
  define x where "x = scale2 (n, d) s"
  have dpos: "0 < snd x" using assms by (simp add: x_def snd_scale2_pos)
  have m: "int (roundHalfEven (fst x) (snd x)) = rne (val x)"
    using roundHalfEven_rne [OF dpos] by (simp add: val_def)
  have r: "round64 n d = scale2 (roundHalfEven (fst x) (snd x), 1) (- s)"
    using assms by (simp add: round64_def Let_def s_def x_def)
  have "val (round64 n d) = val (roundHalfEven (fst x) (snd x), 1) / 2 powi (- s)"
    unfolding r by (rule val_scale2)
  also have "val (roundHalfEven (fst x) (snd x), 1) = of_int (rne (val x))"
    using m by (simp add: val_def)
  also have "val x = val (n, d) / 2 powi s"
    by (simp add: x_def val_scale2)
  finally have "val (round64 n d) = of_int (rne (val (n, d) / 2 powi s)) / 2 powi (- s)" .
  also have "\<dots> = of_int (rne (val (n, d) / 2 powi s)) * 2 powi s"
    by (simp add: power_int_minus field_simps)
  finally show ?thesis unfolding s_def .
qed

lemma round64_bounds:
  assumes "0 < n" "0 < d"
  shows "2 powi (exponentOf n d) \<le> val (round64 n d) \<and>
         val (round64 n d) \<le> 2 powi (exponentOf n d + 1)"
proof -
  define e where "e = exponentOf n d"
  define u where "u = (2::real) powi (e - 52)"
  define y where "y = val (n, d) / u"
  have upos: "0 < u" by (simp add: u_def)
  from exponentOf_bounds [OF assms] have b: "2 powi e \<le> val (n, d)" "val (n, d) < 2 powi (e + 1)"
    by (simp_all add: e_def)
  have lo_eq: "(2::real) powi e = 2 ^ 52 * u"
  proof -
    have "(2::real) powi e = 2 powi (52 + (e - 52))" by simp
    also have "\<dots> = 2 powi 52 * 2 powi (e - 52)" by (rule power_int_add) simp
    finally show ?thesis by (simp add: u_def)
  qed
  have hi_eq: "(2::real) powi (e + 1) = 2 ^ 53 * u"
  proof -
    have "(2::real) powi (53 + (e - 52)) = 2 powi 53 * 2 powi (e - 52)"
      by (rule power_int_add) simp
    moreover have "53 + (e - 52) = e + 1" by simp
    ultimately have "(2::real) powi (e + 1) = 2 powi 53 * 2 powi (e - 52)" by (simp only:)
    then show ?thesis by (simp add: u_def)
  qed
  have y1: "of_int (2 ^ 52) \<le> y"
    using b(1) upos unfolding lo_eq y_def by (simp add: field_simps)
  have y2: "y \<le> of_int (2 ^ 53)"
    using b(2) upos unfolding hi_eq y_def by (simp add: field_simps)
  from rne_mono [OF y1] have r1: "2 ^ 52 \<le> rne y" by (simp only: rne_of_int)
  from rne_mono [OF y2] have r2: "rne y \<le> 2 ^ 53" by (simp only: rne_of_int)
  have v: "val (round64 n d) = of_int (rne y) * u"
    using val_round64 [OF assms] by (simp add: y_def u_def e_def)
  have "2 ^ 52 * u \<le> of_int (rne y) * u"
    using r1 upos by (simp add: of_int_le_iff [symmetric] del: of_int_le_iff)
  moreover have "of_int (rne y) * u \<le> 2 ^ 53 * u"
    using r2 upos by (simp add: of_int_le_iff [symmetric] del: of_int_le_iff)
  ultimately show ?thesis
    unfolding v e_def [symmetric] lo_eq hi_eq by simp
qed

lemma fst_round64_pos:
  assumes "0 < n" "0 < d"
  shows "0 < fst (round64 n d)"
proof (rule ccontr)
  assume "\<not> 0 < fst (round64 n d)"
  then have "val (round64 n d) = 0" by (simp add: val_def)
  moreover have "(0::real) < 2 powi (exponentOf n d)" by simp
  ultimately show False using round64_bounds [OF assms] by linarith
qed

lemma round64_mono:
  assumes "0 < n" "0 < d" "0 < n'" "0 < d'" "val (n, d) \<le> val (n', d')"
  shows "val (round64 n d) \<le> val (round64 n' d')"
proof -
  define e where "e = exponentOf n d"
  define e' where "e' = exponentOf n' d'"
  note b = exponentOf_bounds [OF assms(1,2), folded e_def]
  note b' = exponentOf_bounds [OF assms(3,4), folded e'_def]
  note r = round64_bounds [OF assms(1,2), folded e_def]
  note r' = round64_bounds [OF assms(3,4), folded e'_def]
  have le: "e \<le> e'"
  proof (rule ccontr)
    assume "\<not> e \<le> e'"
    then have "e' + 1 \<le> e" by simp
    then have "(2::real) powi (e' + 1) \<le> 2 powi e" by (intro power_int_increasing) simp_all
    with b b' assms(5) show False by linarith
  qed
  show ?thesis
  proof (cases "e = e'")
    case True
    have upos: "(0::real) < 2 powi (e - 52)" by simp
    have "val (n, d) / 2 powi (e - 52) \<le> val (n', d') / 2 powi (e - 52)"
      using assms(5) upos by (simp add: divide_right_mono)
    from rne_mono [OF this]
    have "real_of_int (rne (val (n, d) / 2 powi (e - 52))) * 2 powi (e - 52)
            \<le> real_of_int (rne (val (n', d') / 2 powi (e - 52))) * 2 powi (e - 52)"
      using upos by (simp add: mult_right_mono)
    then show ?thesis
      using val_round64 [OF assms(1,2)] val_round64 [OF assms(3,4)] True
      by (simp add: e_def e'_def)
  next
    case False
    with le have "e + 1 \<le> e'" by simp
    then have "(2::real) powi (e + 1) \<le> 2 powi e'" by (intro power_int_increasing) simp_all
    with r r' show ?thesis by linarith
  qed
qed


lemma val_float64_of_int_1: "val (round64 1 1) = 1"
proof -
  have "round64 1 1 = (2 ^ 52, 2 ^ 52)" by (simp add: float64_eval)
  then show ?thesis by (simp add: val_def)
qed

lemma val_float64_of_int_100: "val (float64_of_int 100) = 100"
proof -
  have "float64_of_int 100 = (100 * 2 ^ 46, 2 ^ 46)" by (simp add: float64_eval)
  then show ?thesis by (simp add: val_def)
qed

lemma float64_of_int_pos:
  "0 < n \<Longrightarrow> 0 < fst (float64_of_int n) \<and> 0 < snd (float64_of_int n)"
  by (simp add: float64_of_int_def fst_round64_pos snd_round64_pos)

lemma float64_of_int_mono:
  "0 < m \<Longrightarrow> m \<le> n \<Longrightarrow> val (float64_of_int m) \<le> val (float64_of_int n)"
  unfolding float64_of_int_def by (rule round64_mono) (simp_all add: val_def)

lemma fdiv_pos:
  "0 < fst x \<Longrightarrow> 0 < snd x \<Longrightarrow> 0 < fst y \<Longrightarrow> 0 < snd y \<Longrightarrow>
   0 < fst (fdiv x y) \<and> 0 < snd (fdiv x y)"
  by (simp add: fdiv_def fst_round64_pos snd_round64_pos)

lemma fdiv_mono:
  assumes "0 < fst x" "0 < snd x" "0 < fst x'" "0 < snd x'" "0 < fst y" "0 < snd y"
    and "val x \<le> val x'"
  shows "val (fdiv x y) \<le> val (fdiv x' y)"
  unfolding fdiv_def
proof (rule round64_mono)
  have "val (fst x * snd y, snd x * fst y) = val x / val y"
    by (simp add: val_def)
  moreover have "val (fst x' * snd y, snd x' * fst y) = val x' / val y"
    by (simp add: val_def)
  moreover have "0 < val y" using assms by (simp add: val_def)
  ultimately show "val (fst x * snd y, snd x * fst y) \<le> val (fst x' * snd y, snd x' * fst y)"
    using assms(7) by (simp add: divide_right_mono)
qed (use assms in simp_all)

lemma fdiv_le_1:
  assumes "0 < fst x" "0 < snd x" "0 < fst y" "0 < snd y" "val x \<le> val y"
  shows "val (fdiv x y) \<le> 1"
proof -
  have "0 < val y" using assms by (simp add: val_def)
  then have "val x / val y \<le> 1" using assms(5) by simp
  then have "val (fst x * snd y, snd x * fst y) \<le> val (1, 1)"
    by (simp add: val_def)
  then have "val (round64 (fst x * snd y) (snd x * fst y)) \<le> val (round64 1 1)"
    by (intro round64_mono) (use assms in simp_all)
  then show ?thesis unfolding fdiv_def val_float64_of_int_1 .
qed

lemma fmul_mono:
  assumes "0 < fst x" "0 < snd x" "0 < fst x'" "0 < snd x'" "0 < fst y" "0 < snd y"
    and "val x \<le> val x'"
  shows "val (fmul x y) \<le> val (fmul x' y)"
  unfolding fmul_def
proof (rule round64_mono)
  have "val (fst x * fst y, snd x * snd y) = val x * val y"
    by (simp add: val_def)
  moreover have "val (fst x' * fst y, snd x' * snd y) = val x' * val y"
    by (simp add: val_def)
  moreover have "0 < val y" using assms by (simp add: val_def)
  ultimately show "val (fst x * fst y, snd x * snd y) \<le> val (fst x' * fst y, snd x' * snd y)"
    using assms(7) by (simp add: mult_right_mono)
qed (use assms in simp_all)

lemma fmul_100_le:
  assumes "0 < fst x" "0 < snd x" "val x \<le> 1"
  shows "val (fmul x (float64_of_int 100)) \<le> 100"
proof -
  let ?c = "float64_of_int 100"
  have c: "0 < fst ?c" "0 < snd ?c" using float64_of_int_pos [of 100] by simp_all
  have "val (fst x * fst ?c, snd x * snd ?c) = val x * val ?c"
    by (simp add: val_def)
  also have "\<dots> \<le> 100" using assms(3) by (simp add: val_float64_of_int_100)
  finally have "val (fst x * fst ?c, snd x * snd ?c) \<le> val (100, 1)"
    by (simp add: val_def)
  then have "val (round64 (fst x * fst ?c) (snd x * snd ?c)) \<le> val (round64 100 1)"
    by (intro round64_mono) (use assms c in simp_all)
  then show ?thesis
    using val_float64_of_int_100 by (simp add: fmul_def float64_of_int_def)
qed

lemma int_of_float64_floor: "0 < snd x \<Longrightarrow> int_of_float64 x = \<lfloor>val x\<rfloor>"
  by (simp add: int_of_float64_def val_def floor_divide_of_nat_eq)

lemma progressOf_mono:
  assumes "i \<le> j" "0 < tot"
  shows "progressOf i tot \<le> progressOf j tot"
proof -
  let ?a = "float64_of_int (i + 1)" and ?a' = "float64_of_int (j + 1)"
  let ?b = "float64_of_int tot" and ?c = "float64_of_int 100"
  have a: "0 < fst ?a" "0 < snd ?a" using float64_of_int_pos [of "i + 1"] by simp_all
  have a': "0 < fst ?a'" "0 < snd ?a'" using float64_of_int_pos [of "j + 1"] by simp_all
  have b: "0 < fst ?b" "0 < snd ?b" using float64_of_int_pos [OF assms(2)] by simp_all
  have c: "0 < fst ?c" "0 < snd ?c" using float64_of_int_pos [of 100] by simp_all
  have "val ?a \<le> val ?a'" using assms(1) by (intro float64_of_int_mono) simp_all
  then have q: "val (fdiv ?a ?b) \<le> val (fdiv ?a' ?b)"
    by (intro fdiv_mono a a' b)
  have qp: "0 < fst (fdiv ?a ?b)" "0 < snd (fdiv ?a ?b)" "0 < fst (fdiv ?a' ?b)" "0 < snd (fdiv ?a' ?b)"
    using fdiv_pos [OF a b] fdiv_pos [OF a' b] by simp_all
  have p: "val (fmul (fdiv ?a ?b) ?c) \<le> val (fmul (fdiv ?a' ?b) ?c)"
    by (intro fmul_mono qp c q)
  have sp: "0 < snd (fmul (fdiv ?a ?b) ?c)" "0 < snd (fmul (fdiv ?a' ?b) ?c)"
    using qp c by (simp_all add: fmul_def snd_round64_pos)
  show ?thesis
    unfolding progressOf_def int_of_float64_floor [OF sp(1)] int_of_float64_floor [OF sp(2)]
    using p by (rule floor_mono)
qed

lemma progressOf_le_100:
  assumes "i < tot"
  shows "progressOf i tot \<le> 100"
proof -
  let ?a = "float64_of_int (i + 1)"
  let ?b = "float64_of_int tot" and ?c = "float64_of_int 100"
  have a: "0 < fst ?a" "0 < snd ?a" using float64_of_int_pos [of "i + 1"] by simp_all
  have b: "0 < fst ?b" "0 < snd ?b" using float64_of_int_pos [of tot] assms by simp_all
  have c: "0 < fst ?c" "0 < snd ?c" using float64_of_int_pos [of 100] by simp_all
  have "val ?a \<le> val ?b" using assms by (intro float64_of_int_mono) simp_all
  then have q: "val (fdiv ?a ?b) \<le> 1" by (intro fdiv_le_1 a b)
  have qp: "0 < fst (fdiv ?a ?b)" "0 < snd (fdiv ?a ?b)" using fdiv_pos [OF a b] by simp_all
  have p: "val (fmul (fdiv ?a ?b) ?c) \<le> 100" by (intro fmul_100_le qp q)
  have sp: "0 < snd (fmul (fdiv ?a ?b) ?c)"
    using qp c by (simp add: fmul_def snd_round64_pos)
  have "\<lfloor>val (fmul (fdiv ?a ?b) ?c)\<rfloor> \<le> \<lfloor>100::real\<rfloor>" using p by (rule floor_mono)
  then show ?thesis
    unfolding progressOf_def int_of_float64_floor [OF sp] by simp
qed

lemma progressOf_nonneg: "0 \<le> progressOf i tot"
  by (simp add: progressOf_def int_of_float64_def)

section \<open>Properties of the job store\<close>

lemma registerJob_same:
  "registerJob js jobID now jobID =
     Some \<lparr>ID = jobID, Status = ''processing'', Progress = 0, TotalRecords = 0,
           ErrorMessage = [], StartedAt = now, CompletedAt = None\<rparr>"
  by (simp add: registerJob_def)

text \<open>A write to one job leaves every other job as it is.\<close>

lemma applyOp_other_job: "opJob op \<noteq> jobID \<Longrightarrow> applyOp op js jobID = js jobID"
  by (cases op)
    (simp_all add: registerJob_def updateJobProgress_def updateJobStatus_def completeJob_def
      Let_def split: option.splits)

text \<open>The invariant of a single job record.\<close>

lemma stamp_applyOp:
  assumes inv: "\<And>job. js jobID = Some job \<Longrightarrow> (CompletedAt job \<noteq> None \<longleftrightarrow> terminal (Status job))"
    and iss: "issued op"
    and step: "applyOp op js jobID = Some job'"
  shows "CompletedAt job' \<noteq> None \<longleftrightarrow> terminal (Status job')"
proof (cases op)
  case (Register x now)
  with step inv show ?thesis
    by (auto simp: registerJob_def terminal_def split: if_splits)
next
  case (SetProgress x p)
  with step inv show ?thesis
    by (auto simp: updateJobProgress_def split: option.splits if_splits)
next
  case (SetStatus x status p msg now)
  with iss have t: "terminal status" by simp
  then have "status = ''completed'' \<or> status = ''failed''" by (simp add: terminal_def)
  with SetStatus step inv t show ?thesis
    by (auto simp: updateJobStatus_def Let_def split: option.splits if_splits)
next
  case (Complete x now)
  with step inv show ?thesis
    by (auto simp: completeJob_def terminal_def split: option.splits if_splits)
qed

lemma reachable_stamp:
  "reachable js \<Longrightarrow> js jobID = Some job \<Longrightarrow> (CompletedAt job \<noteq> None \<longleftrightarrow> terminal (Status job))"
proof (induction arbitrary: jobID job rule: reachable.induct)
  case reachable_new
  then show ?case by simp
next
  case (reachable_op js op)
  show ?case
    by (rule stamp_applyOp [of js jobID op job]) (use reachable_op in auto)
qed

lemma reachable_storeTrace:
  "reachable js \<Longrightarrow> \<forall>op\<in>set ops. issued op \<Longrightarrow> js' \<in> set (storeTrace js ops) \<Longrightarrow> reachable js'"
proof (induction ops arbitrary: js)
  case Nil
  then show ?case by simp
next
  case (Cons op ops)
  from Cons.prems(3) have "js' = js \<or> js' \<in> set (storeTrace (applyOp op js) ops)" by simp
  then show ?case
  proof
    assume "js' = js"
    with Cons.prems(1) show ?thesis by simp
  next
    assume mem: "js' \<in> set (storeTrace (applyOp op js) ops)"
    have "issued op" using Cons.prems(2) by simp
    with Cons.prems(1) have r: "reachable (applyOp op js)" by (rule reachable_op)
    have "\<forall>op\<in>set ops. issued op" using Cons.prems(2) by simp
    from Cons.IH [OF r this mem] show ?thesis .
  qed
qed

section \<open>Properties of the credentials\<close>

lemma credentials_eq:
  "credentials a =
     (if CHR '':'' \<in> set a
      then Inr (takeWhile (\<lambda>c. c \<noteq> CHR '':'') a,
                takeWhile (\<lambda>c. c \<noteq> CHR '':'') (tl (dropWhile (\<lambda>c. c \<noteq> CHR '':'') a)))
      else Inl (InvalidAccountFormat a))"
proof -
  have len: "length (Split a CHR '':'') < 2 \<longleftrightarrow> CHR '':'' \<notin> set a"
    using length_Split_ge2 [of a "CHR '':''"] by auto
  have p1: "Split a CHR '':'' ! Suc 0 =
      takeWhile (\<lambda>c. c \<noteq> CHR '':'') (tl (dropWhile (\<lambda>c. c \<noteq> CHR '':'') a))"
    if "CHR '':'' \<in> set a"
    using that by (subst Split_unfold) (simp add: nth0_Split)
  show ?thesis
    unfolding credentials_def Let_def len by (simp add: nth0_Split p1)
qed

lemma credentials_one_colon:
  assumes "CHR '':'' \<notin> set u" "CHR '':'' \<notin> set p"
  shows "credentials (u @ CHR '':'' # p) = Inr (u, p)"
proof -
  have "takeWhile (\<lambda>c. c \<noteq> CHR '':'') (u @ CHR '':'' # p) = u"
    using assms(1) by (induction u) auto
  moreover have "dropWhile (\<lambda>c. c \<noteq> CHR '':'') (u @ CHR '':'' # p) = CHR '':'' # p"
    using assms(1) by (induction u) auto
  moreover have "takeWhile (\<lambda>c. c \<noteq> CHR '':'') p = p"
    using assms(2) by (induction p) auto
  ultimately show ?thesis by (simp add: credentials_eq)
qed

section \<open>Properties of the account loop\<close>

lemma accountLoop_Cons_Returns:
  assumes "snd (downloadAccountData f henv a fromDate toDate sf) = Returns err"
  shows "accountLoop f henv jobID fromDate toDate sf n i (a # as) =
    (SetProgress jobID (progressOf i n) # fst (accountLoop f henv jobID fromDate toDate sf n (i + 1) as),
     fst (downloadAccountData f henv a fromDate toDate sf)
       @ (case err of None \<Rightarrow> [] | Some e \<Rightarrow> [LogError a e])
       @ fst (snd (accountLoop f henv jobID fromDate toDate sf n (i + 1) as)),
     snd (snd (accountLoop f henv jobID fromDate toDate sf n (i + 1) as)))"
  using assms by (simp add: Let_def)

lemma accountLoop_Cons_Panics:
  assumes "snd (downloadAccountData f henv a fromDate toDate sf) = Panics v"
  shows "accountLoop f henv jobID fromDate toDate sf n i (a # as) =
    ([SetProgress jobID (progressOf i n)], fst (downloadAccountData f henv a fromDate toDate sf), Some v)"
  using assms by (simp add: Let_def)

text \<open>The writes of the loop are progress updates for consecutive indices; without a
  panic there is one for every account.\<close>

lemma accountLoop_ops:
  "\<exists>k\<le>length as.
     fst (accountLoop f henv jobID fromDate toDate sf n i as) =
       map (\<lambda>j. SetProgress jobID (progressOf j n)) [i..<i + k] \<and>
     (snd (snd (accountLoop f henv jobID fromDate toDate sf n i as)) = None \<longrightarrow> k = length as)"
proof (induction as arbitrary: i)
  case Nil
  then show ?case by simp
next
  case (Cons a as)
  let ?set = "\<lambda>j. SetProgress jobID (progressOf j n)"
  show ?case
  proof (cases "snd (downloadAccountData f henv a fromDate toDate sf)")
    case (Returns err)
    note step = accountLoop_Cons_Returns [OF Returns, of jobID n i as]
    from Cons.IH [of "i + 1"] obtain k where kk: "k \<le> length as \<and>
      fst (accountLoop f henv jobID fromDate toDate sf n (i + 1) as) = map ?set [i + 1..<i + 1 + k] \<and>
      (snd (snd (accountLoop f henv jobID fromDate toDate sf n (i + 1) as)) = None \<longrightarrow> k = length as)"
      by (elim exE)
    then have k: "k \<le> length as"
      "fst (accountLoop f henv jobID fromDate toDate sf n (i + 1) as) = map ?set [i + 1..<i + 1 + k]"
      "snd (snd (accountLoop f henv jobID fromDate toDate sf n (i + 1) as)) = None \<longrightarrow> k = length as"
      by simp_all
    have upt: "i # [i + 1..<i + 1 + k] = [i..<i + Suc k]"
      by (simp add: upt_conv_Cons)
    have "fst (accountLoop f henv jobID fromDate toDate sf n i (a # as)) =
        ?set i # map ?set [i + 1..<i + 1 + k]"
      by (simp only: step fst_conv k(2))
    also have "\<dots> = map ?set (i # [i + 1..<i + 1 + k])"
      by (simp only: list.map)
    finally have ops: "fst (accountLoop f henv jobID fromDate toDate sf n i (a # as)) =
        map ?set [i..<i + Suc k]"
      by (simp only: upt)
    have pan: "snd (snd (accountLoop f henv jobID fromDate toDate sf n i (a # as))) =
        snd (snd (accountLoop f henv jobID fromDate toDate sf n (i + 1) as))"
      by (simp only: step snd_conv)
    have "Suc k \<le> length (a # as)" using k(1) by simp
    moreover have "snd (snd (accountLoop f henv jobID fromDate toDate sf n i (a # as))) = None
        \<longrightarrow> Suc k = length (a # as)"
      using k(3) pan by simp
    ultimately have "Suc k \<le> length (a # as) \<and>
        fst (accountLoop f henv jobID fromDate toDate sf n i (a # as)) = map ?set [i..<i + Suc k] \<and>
        (snd (snd (accountLoop f henv jobID fromDate toDate sf n i (a # as))) = None
          \<longrightarrow> Suc k = length (a # as))"
      using ops by (intro conjI)
    then show ?thesis by (rule exI)
  next
    case (Panics v)
    note step = accountLoop_Cons_Panics [OF Panics, of jobID n i as]
    have "[i..<i + Suc 0] = [i]" by simp
    then have ops: "fst (accountLoop f henv jobID fromDate toDate sf n i (a # as)) =
        map ?set [i..<i + Suc 0]"
      by (simp only: step fst_conv list.map)
    have pan: "snd (snd (accountLoop f henv jobID fromDate toDate sf n i (a # as))) \<noteq> None"
      by (simp only: step snd_conv) simp
    have "Suc 0 \<le> length (a # as)" by simp
    then have "Suc 0 \<le> length (a # as) \<and>
        fst (accountLoop f henv jobID fromDate toDate sf n i (a # as)) = map ?set [i..<i + Suc 0] \<and>
        (snd (snd (accountLoop f henv jobID fromDate toDate sf n i (a # as))) = None
          \<longrightarrow> Suc 0 = length (a # as))"
      using ops pan by (intro conjI impI) (assumption, assumption, erule notE, assumption)
    then show ?thesis by (rule exI)
  qed
qed

lemma accountLoop_logs_error:
  assumes "snd (snd (accountLoop f henv jobID fromDate toDate sf n i as)) = None"
    and "a \<in> set as"
    and "snd (downloadAccountData f henv a fromDate toDate sf) = Returns (Some e)"
  shows "LogError a e \<in> set (fst (snd (accountLoop f henv jobID fromDate toDate sf n i as)))"
  using assms
proof (induction as arbitrary: i)
  case Nil
  then show ?case by simp
next
  case (Cons b bs)
  show ?case
  proof (cases "snd (downloadAccountData f henv b fromDate toDate sf)")
    case (Panics v)
    with Cons.prems(1) show ?thesis by (simp add: Let_def)
  next
    case (Returns err)
    note step = accountLoop_Cons_Returns [OF Returns, of jobID n i bs]
    from Cons.prems(1) have rest: "snd (snd (accountLoop f henv jobID fromDate toDate sf n (i + 1) bs)) = None"
      unfolding step by simp
    show ?thesis
    proof (cases "a = b")
      case True
      with Returns Cons.prems(3) have "err = Some e" by simp
      then show ?thesis unfolding step using True by simp
    next
      case False
      with Cons.prems(2) have "a \<in> set bs" by simp
      from Cons.IH [OF rest this Cons.prems(3)] show ?thesis
        unfolding step by simp
    qed
  qed
qed

text \<open>What status queries see while progress updates and then a final write are made.\<close>

lemma observed_Nil: "observed jobID [] = []"
  by (simp add: observed_def map_filter_simps)

lemma observed_Cons:
  "observed jobID (js # stores) =
     (case js jobID of None \<Rightarrow> observed jobID stores | Some job \<Rightarrow> job # observed jobID stores)"
  by (cases "js jobID") (simp_all add: observed_def map_filter_simps GetJobStatus_def)

lemma observed_append: "observed jobID (xs @ ys) = observed jobID xs @ observed jobID ys"
  by (induction xs) (simp_all add: observed_Cons observed_Nil split: option.splits)

lemma storeTrace_not_Nil: "storeTrace js ops \<noteq> []"
  by (cases ops) simp_all

lemma storeTrace_snoc:
  "storeTrace js (ops @ [op]) = storeTrace js ops @ [applyOp op (last (storeTrace js ops))]"
  by (induction ops arbitrary: js) (simp_all add: storeTrace_not_Nil)

lemma observed_progress:
  assumes "js jobID = Some job"
  shows "observed jobID (storeTrace js (map (SetProgress jobID) ps)) =
           map (\<lambda>p. job\<lparr>Progress := p\<rparr>) (Progress job # ps)"
  using assms
proof (induction ps arbitrary: js job)
  case Nil
  then show ?case by (simp add: observed_Cons observed_Nil)
next
  case (Cons p ps)
  let ?js = "applyOp (SetProgress jobID p) js"
  have js': "?js jobID = Some (job\<lparr>Progress := p\<rparr>)"
    using Cons.prems by (simp add: updateJobProgress_def)
  have "observed jobID (storeTrace js (map (SetProgress jobID) (p # ps))) =
      job # observed jobID (storeTrace ?js (map (SetProgress jobID) ps))"
    using Cons.prems by (simp add: observed_Cons)
  also have "observed jobID (storeTrace ?js (map (SetProgress jobID) ps)) =
      map (\<lambda>q. job\<lparr>Progress := p\<rparr>\<lparr>Progress := q\<rparr>) (Progress (job\<lparr>Progress := p\<rparr>) # ps)"
    by (rule Cons.IH [of ?js "job\<lparr>Progress := p\<rparr>", OF js'])
  finally show ?case by simp
qed

lemma last_progress:
  assumes "js jobID = Some job"
  shows "last (storeTrace js (map (SetProgress jobID) ps)) jobID =
           Some (job\<lparr>Progress := last (Progress job # ps)\<rparr>)"
  using assms
proof (induction ps arbitrary: js job)
  case Nil
  then show ?case by simp
next
  case (Cons p ps)
  let ?js = "applyOp (SetProgress jobID p) js"
  have js': "?js jobID = Some (job\<lparr>Progress := p\<rparr>)"
    using Cons.prems by (simp add: updateJobProgress_def)
  have "last (storeTrace js (map (SetProgress jobID) (p # ps))) =
      last (storeTrace ?js (map (SetProgress jobID) ps))"
    by (simp add: storeTrace_not_Nil)
  then show ?case
    using Cons.IH [of ?js "job\<lparr>Progress := p\<rparr>", OF js'] by simp
qed

lemma Complete_job:
  "js jobID = Some job \<Longrightarrow>
   applyOp (Complete jobID now) js jobID =
     Some (job\<lparr>Status := ''completed'', Progress := 100, CompletedAt := Some now\<rparr>)"
  by (simp add: completeJob_def)

lemma Fail_job:
  "js jobID = Some job \<Longrightarrow> msg \<noteq> [] \<Longrightarrow>
   applyOp (SetStatus jobID ''failed'' 0 msg now) js jobID =
     Some (job\<lparr>Status := ''failed'', Progress := 0, ErrorMessage := msg, CompletedAt := Some now\<rparr>)"
  by (simp add: updateJobStatus_def Let_def)

text \<open>The queries of a run: the job as registered, one state for every progress
  update, and the state after the last write.\<close>

lemma observed_run:
  assumes "js jobID = Some job" and "applyOp final (last (storeTrace js (map (SetProgress jobID) ps))) jobID = Some job'"
  shows "observed jobID (storeTrace js (map (SetProgress jobID) ps @ [final])) =
           map (\<lambda>p. job\<lparr>Progress := p\<rparr>) (Progress job # ps) @ [job']"
  unfolding storeTrace_snoc observed_append observed_progress [of js jobID job ps, OF assms(1)]
  using assms(2) by (simp add: observed_Cons observed_Nil)

section \<open>The completion time\<close>

lemma asyncUnit_issued:
  "\<forall>op\<in>set (fst (asyncUnit f henv jobID accounts fromDate toDate stamp now)). issued op"
proof -
  define sf where "sf = ''./downloads/'' @ stamp"
  let ?R = "accountLoop f henv jobID fromDate toDate sf (length accounts) 0 accounts"
  from accountLoop_ops [of accounts f henv jobID fromDate toDate sf "length accounts" 0]
  obtain k where "fst ?R = map (\<lambda>j. SetProgress jobID (progressOf j (length accounts))) [0..<0 + k]"
    by (elim exE conjE)
  then have loop: "\<forall>op\<in>set (fst ?R). issued op" by auto
  show ?thesis
    unfolding asyncUnit_def Let_def sf_def [symmetric]
    using loop by (cases "snd (snd ?R)") (simp_all add: terminal_def)
qed

lemma reachable_ProcessAsync:
  assumes "reachable js"
    and "js' \<in> set (ProcessAsync f henv js jobID accounts fromDate toDate t0 stamp now)"
  shows "reachable js'"
proof -
  have "issued (Register jobID t0)" by simp
  with assms(1) have "reachable (applyOp (Register jobID t0) js)" by (rule reachable_op)
  then have "reachable (registerJob js jobID t0)" by simp
  then show ?thesis
    using asyncUnit_issued assms(2) unfolding ProcessAsync_def by (rule reachable_storeTrace)
qed

text \<open>
  Claim C2. In every store reached by any sequence of registrations, progress updates,
  calls of \<open>updateJobStatus\<close> with a terminal status and completions, of any jobs, a
  job has a completion time if and only if its status is completed or failed. A job
  just registered is processing and has no completion time; a call of
  \<open>updateJobStatus\<close> with a terminal status and the completion write set the
  completion time of a job that is in the store. Every store of a run of
  \<open>ProcessAsync\<close> that starts in a reachable store is reachable.
\<close>

theorem completedAt_iff_terminal:
  "(reachable js \<and> GetJobStatus js jobID = Some job \<longrightarrow>
      (CompletedAt job \<noteq> None \<longleftrightarrow> Status job = ''completed'' \<or> Status job = ''failed'')) \<and>
   (\<exists>job'. GetJobStatus (registerJob js jobID now) jobID = Some job' \<and>
      Status job' = ''processing'' \<and> CompletedAt job' = None) \<and>
   (GetJobStatus js jobID = Some job \<and> (status = ''completed'' \<or> status = ''failed'') \<longrightarrow>
      (\<exists>job'. GetJobStatus (updateJobStatus js jobID status p msg now) jobID = Some job' \<and>
         Status job' = status \<and> CompletedAt job' = Some now) \<and>
      (\<exists>job'. GetJobStatus (applyOp (Complete jobID now) js) jobID = Some job' \<and>
         Status job' = ''completed'' \<and> CompletedAt job' = Some now)) \<and>
   (reachable js \<and> js' \<in> set (ProcessAsync f henv js jobID accounts fromDate toDate t0 stamp now)
      \<longrightarrow> reachable js')"
proof -
  have a: "CompletedAt job \<noteq> None \<longleftrightarrow> Status job = ''completed'' \<or> Status job = ''failed''"
    if "reachable js" "GetJobStatus js jobID = Some job"
    using reachable_stamp [OF that(1), of jobID job] that(2)
    by (simp add: GetJobStatus_def terminal_def)
  have b: "\<exists>job'. GetJobStatus (registerJob js jobID now) jobID = Some job' \<and>
      Status job' = ''processing'' \<and> CompletedAt job' = None"
    by (simp add: GetJobStatus_def registerJob_def)
  have c: "\<exists>job'. GetJobStatus (updateJobStatus js jobID status p msg now) jobID = Some job' \<and>
         Status job' = status \<and> CompletedAt job' = Some now"
    if "GetJobStatus js jobID = Some job" "status = ''completed'' \<or> status = ''failed''"
    using that by (auto simp: GetJobStatus_def updateJobStatus_def Let_def)
  have d: "\<exists>job'. GetJobStatus (applyOp (Complete jobID now) js) jobID = Some job' \<and>
         Status job' = ''completed'' \<and> CompletedAt job' = Some now"
    if "GetJobStatus js jobID = Some job"
    using that by (simp add: GetJobStatus_def completeJob_def)
  have e: "reachable js'"
    if "reachable js" "js' \<in> set (ProcessAsync f henv js jobID accounts fromDate toDate t0 stamp now)"
    using that by (rule reachable_ProcessAsync)
  from a b c d e show ?thesis by blast
qed

text \<open>
  A store reached by registering job \<open>j1\<close> at time 3, setting its progress and
  completing it at time 7, with a second job registered in between; and the failure of
  the second job at time 8.
\<close>

theorem completedAt_iff_terminal_witness:
  "reachable (applyOp (Complete ''j1'' 7) (applyOp (Register ''j2'' 5)
      (applyOp (SetProgress ''j1'' 50) (applyOp (Register ''j1'' 3) Map.empty)))) \<and>
   GetJobStatus (applyOp (Complete ''j1'' 7) (applyOp (Register ''j2'' 5)
      (applyOp (SetProgress ''j1'' 50) (applyOp (Register ''j1'' 3) Map.empty)))) ''j1''
     = Some \<lparr>ID = ''j1'', Status = ''completed'', Progress = 100, TotalRecords = 0,
             ErrorMessage = [], StartedAt = 3, CompletedAt = Some 7\<rparr> \<and>
   (CompletedAt \<lparr>ID = ''j1'', Status = ''completed'', Progress = 100, TotalRecords = 0,
             ErrorMessage = [], StartedAt = 3, CompletedAt = Some (7::nat)\<rparr> \<noteq> None \<longleftrightarrow>
    Status \<lparr>ID = ''j1'', Status = ''completed'', Progress = 100, TotalRecords = 0,
             ErrorMessage = [], StartedAt = 3, CompletedAt = Some (7::nat)\<rparr> = ''completed'' \<or>
    Status \<lparr>ID = ''j1'', Status = ''completed'', Progress = 100, TotalRecords = 0,
             ErrorMessage = [], StartedAt = 3, CompletedAt = Some (7::nat)\<rparr> = ''failed'') \<and>
   GetJobStatus (applyOp (Register ''j2'' 5) Map.empty) ''j2'' = Some (newJob ''j2'' 5) \<and>
   (\<exists>job'. GetJobStatus (updateJobStatus (applyOp (Register ''j2'' 5) Map.empty) ''j2'' ''failed'' 0
        ''Internal error: boom'' 8) ''j2'' = Some job' \<and>
      Status job' = ''failed'' \<and> CompletedAt job' = Some 8) \<and>
   reachable (registerJob (applyOp (Register ''j1'' 3) Map.empty) ''j2'' 5)"
proof -
  let ?js = "applyOp (Complete ''j1'' 7) (applyOp (Register ''j2'' 5)
      (applyOp (SetProgress ''j1'' 50) (applyOp (Register ''j1'' 3) Map.empty)))"
  let ?job = "\<lparr>ID = ''j1'', Status = ''completed'', Progress = 100, TotalRecords = 0,
             ErrorMessage = [], StartedAt = 3, CompletedAt = Some (7::nat)\<rparr>"
  let ?js1 = "applyOp (Register ''j1'' 3) Map.empty"
  let ?js2 = "applyOp (Register ''j2'' 5) Map.empty"
  have r: "reachable ?js" by (intro reachable.intros) simp_all
  have r1: "reachable ?js1" by (intro reachable.intros) simp_all
  have g: "GetJobStatus ?js ''j1'' = Some ?job"
    by (simp add: GetJobStatus_def registerJob_def updateJobProgress_def completeJob_def)
  have g2: "GetJobStatus ?js2 ''j2'' = Some (newJob ''j2'' 5)"
    by (simp add: GetJobStatus_def registerJob_def newJob_def)
  have m: "registerJob ?js1 ''j2'' 5 \<in> set (ProcessAsync (\<lambda>c. Panics ''x'') [] ?js1 ''j2'' [] [] [] 5 [] 9)"
    by (simp add: ProcessAsync_def asyncUnit_def)
  from completedAt_iff_terminal [where js = ?js and jobID = "''j1''" and job = ?job] r g
  have c1: "CompletedAt ?job \<noteq> None \<longleftrightarrow> Status ?job = ''completed'' \<or> Status ?job = ''failed''"
    by blast
  from completedAt_iff_terminal [where js = ?js2 and jobID = "''j2''" and job = "newJob ''j2'' 5"
      and status = "''failed''" and p = 0 and msg = "''Internal error: boom''" and now = 8] g2
  have c2: "\<exists>job'. GetJobStatus (updateJobStatus ?js2 ''j2'' ''failed'' 0
        ''Internal error: boom'' 8) ''j2'' = Some job' \<and>
      Status job' = ''failed'' \<and> CompletedAt job' = Some 8"
    by blast
  from completedAt_iff_terminal [where js = ?js1 and js' = "registerJob ?js1 ''j2'' 5"
      and f = "\<lambda>c. Panics ''x''" and henv = "[]" and jobID = "''j2''" and accounts = "[]"
      and fromDate = "[]" and toDate = "[]" and ?t0.0 = 5 and stamp = "[]" and now = 9] r1 m
  have c3: "reachable (registerJob ?js1 ''j2'' 5)"
    by blast
  from r g c1 g2 c2 c3 show ?thesis by (intro conjI)
qed

section \<open>The credentials used for retrieval\<close>

text \<open>
  Claim C4. The orchestrator splits the account string at the first colon, so the
  password is everything after it. The code splits at every colon and takes the first
  two parts: the password is what lies between the first and the second colon, which is
  everything after the first colon only when there is no second one. An account without
  a colon is an error for that account; the factory is not called for it, the error is
  logged and the loop goes on with the next account.
\<close>

theorem credentials_split_at_every_colon:
  "credentials a =
     (if CHR '':'' \<in> set a
      then Inr (takeWhile (\<lambda>c. c \<noteq> CHR '':'') a,
                takeWhile (\<lambda>c. c \<noteq> CHR '':'') (tl (dropWhile (\<lambda>c. c \<noteq> CHR '':'') a)))
      else Inl (InvalidAccountFormat a)) \<and>
   (CHR '':'' \<notin> set u \<and> CHR '':'' \<notin> set p \<longrightarrow> credentials (u @ CHR '':'' # p) = Inr (u, p)) \<and>
   (credentials a = Inr (u, p) \<and>
    f \<lparr>UserID = u, Password = p, DownloadPath = ''./downloads'', SessionFolder = sf,
       Headless = GetHeadlessMode henv, Timeout = 30000, RetryCount = 3\<rparr> = Returns (Inl e)
    \<longrightarrow> downloadAccountData f henv a fromDate toDate sf = ([], Returns (Some (CreateScraperFailed e)))) \<and>
   (CHR '':'' \<notin> set a \<longrightarrow>
      downloadAccountData f henv a fromDate toDate sf = ([], Returns (Some (InvalidAccountFormat a))) \<and>
      accountLoop f henv jobID fromDate toDate sf n i (a # as) =
        (SetProgress jobID (progressOf i n)
           # fst (accountLoop f henv jobID fromDate toDate sf n (i + 1) as),
         LogError a (InvalidAccountFormat a)
           # fst (snd (accountLoop f henv jobID fromDate toDate sf n (i + 1) as)),
         snd (snd (accountLoop f henv jobID fromDate toDate sf n (i + 1) as))))"
proof -
  have c: "downloadAccountData f henv a fromDate toDate sf = ([], Returns (Some (CreateScraperFailed e)))"
    if "credentials a = Inr (u, p)"
       "f \<lparr>UserID = u, Password = p, DownloadPath = ''./downloads'', SessionFolder = sf,
          Headless = GetHeadlessMode henv, Timeout = 30000, RetryCount = 3\<rparr> = Returns (Inl e)"
    using that by (simp add: downloadAccountData_def)
  have d: "downloadAccountData f henv a fromDate toDate sf = ([], Returns (Some (InvalidAccountFormat a)))"
    if "CHR '':'' \<notin> set a"
    using that by (simp add: downloadAccountData_def credentials_eq)
  have l: "accountLoop f henv jobID fromDate toDate sf n i (a # as) =
        (SetProgress jobID (progressOf i n)
           # fst (accountLoop f henv jobID fromDate toDate sf n (i + 1) as),
         LogError a (InvalidAccountFormat a)
           # fst (snd (accountLoop f henv jobID fromDate toDate sf n (i + 1) as)),
         snd (snd (accountLoop f henv jobID fromDate toDate sf n (i + 1) as)))"
    if "CHR '':'' \<notin> set a"
  proof -
    have "snd (downloadAccountData f henv a fromDate toDate sf) = Returns (Some (InvalidAccountFormat a))"
      using d [OF that] by simp
    from accountLoop_Cons_Returns [OF this, of jobID n i as] show ?thesis
      using d [OF that] by simp
  qed
  show ?thesis
    using credentials_eq [of a] credentials_one_colon [of u p] c d l by (intro conjI impI) auto
qed

text \<open>
  The account \<open>user1:secret\<close> gives the identifier \<open>user1\<close> and the password
  \<open>secret\<close>, which is what the scraper factory gets; the account \<open>user1\<close> is an
  error, after which the loop makes the progress update of the next account.
\<close>

theorem credentials_split_at_every_colon_witness:
  "credentials ''user1:secret'' = Inr (''user1'', ''secret'') \<and>
   credentials ''user1'' = Inl (InvalidAccountFormat ''user1'') \<and>
   downloadAccountData (\<lambda>c. Returns (Inl (Password c))) [] ''user1:secret'' ''2024-01-01''
     ''2024-01-31'' ''./downloads/s'' = ([], Returns (Some (CreateScraperFailed ''secret''))) \<and>
   fst (accountLoop (\<lambda>c. Returns (Inl (Password c))) [] ''job-1'' ''2024-01-01'' ''2024-01-31''
     ''./downloads/s'' 2 0 [''user1'', ''user2:pw'']) =
     [SetProgress ''job-1'' (progressOf 0 2), SetProgress ''job-1'' (progressOf 1 2)]"
proof -
  let ?f = "\<lambda>c. Returns (Inl (Password c)) :: (string + Scraper) outcome"
  have n1: "CHR '':'' \<notin> set ''user1''" and n2: "CHR '':'' \<notin> set ''secret''" by simp_all
  have cr: "credentials ''user1:secret'' = Inr (''user1'', ''secret'')"
    using credentials_split_at_every_colon [of "''user1:secret''" "''user1''" "''secret''"
        ?f "''./downloads/s''" "[]" "''secret''" "''2024-01-01''" "''2024-01-31''" "''job-1''" 2 0 "[]"]
      n1 n2 by simp
  have fe: "?f \<lparr>UserID = ''user1'', Password = ''secret'', DownloadPath = ''./downloads'',
         SessionFolder = ''./downloads/s'', Headless = GetHeadlessMode [], Timeout = 30000,
         RetryCount = 3\<rparr> = Returns (Inl ''secret'')" by simp
  have dl: "downloadAccountData ?f [] ''user1:secret'' ''2024-01-01'' ''2024-01-31'' ''./downloads/s''
      = ([], Returns (Some (CreateScraperFailed ''secret'')))"
    using credentials_split_at_every_colon [of "''user1:secret''" "''user1''" "''secret''"
        ?f "''./downloads/s''" "[]" "''secret''" "''2024-01-01''" "''2024-01-31''" "''job-1''" 2 0 "[]"]
      cr fe by blast
  have bad: "credentials ''user1'' = Inl (InvalidAccountFormat ''user1'')"
    using credentials_split_at_every_colon [of "''user1''" "''user1''" "''secret''"
        ?f "''./downloads/s''" "[]" "''secret''" "''2024-01-01''" "''2024-01-31''" "''job-1''" 2 0
        "[''user2:pw'']"]
      n1 by simp
  have lp: "accountLoop ?f [] ''job-1'' ''2024-01-01'' ''2024-01-31'' ''./downloads/s'' 2 0
        [''user1'', ''user2:pw''] =
      (SetProgress ''job-1'' (progressOf 0 2)
         # fst (accountLoop ?f [] ''job-1'' ''2024-01-01'' ''2024-01-31'' ''./downloads/s'' 2 (0 + 1)
                  [''user2:pw'']),
       LogError ''user1'' (InvalidAccountFormat ''user1'')
         # fst (snd (accountLoop ?f [] ''job-1'' ''2024-01-01'' ''2024-01-31'' ''./downloads/s'' 2 (0 + 1)
                  [''user2:pw''])),
       snd (snd (accountLoop ?f [] ''job-1'' ''2024-01-01'' ''2024-01-31'' ''./downloads/s'' 2 (0 + 1)
                  [''user2:pw''])))"
    using credentials_split_at_every_colon [of "''user1''" "''user1''" "''secret''"
        ?f "''./downloads/s''" "[]" "''secret''" "''2024-01-01''" "''2024-01-31''" "''job-1''" 2 0
        "[''user2:pw'']"]
      n1 by blast
  have "fst (accountLoop ?f [] ''job-1'' ''2024-01-01'' ''2024-01-31'' ''./downloads/s'' 2 0
        [''user1'', ''user2:pw'']) =
     [SetProgress ''job-1'' (progressOf 0 2), SetProgress ''job-1'' (progressOf 1 2)]"
    unfolding lp by (simp add: downloadAccountData_def credentials_def Let_def)
  with cr bad dl show ?thesis by simp
qed

text \<open>
  The password of \<open>id:pa:ss\<close> is \<open>pa\<close>, not \<open>pa:ss\<close>, and \<open>pa\<close> is what
  the scraper factory gets.
\<close>

theorem credentials_first_colon_counterexample:
  "credentials ''id:pa:ss'' = Inr (''id'', ''pa'') \<and>
   credentials ''id:pa:ss'' \<noteq> Inr (''id'', ''pa:ss'') \<and>
   downloadAccountData (\<lambda>c. Returns (Inl (Password c))) [] ''id:pa:ss'' ''2024-01-01''
     ''2024-01-31'' ''./downloads/s'' = ([], Returns (Some (CreateScraperFailed ''pa'')))"
  by (simp add: downloadAccountData_def credentials_def Let_def)

section \<open>Properties of a run of a job\<close>

lemma progress_list_sorted:
  assumes "k \<le> n"
  shows "sorted (0 # map (\<lambda>j. progressOf j n) [0..<k] @ [100])"
proof -
  have mono: "sorted (map (\<lambda>j. progressOf j n) [0..<k])"
  proof (cases "n = 0")
    case True
    with assms show ?thesis by simp
  next
    case False
    then have "progressOf i n \<le> progressOf j n" if "i \<le> j" for i j
      using that by (intro progressOf_mono) simp_all
    then show ?thesis
      by (simp add: sorted_map sorted_wrt_iff_nth_less)
  qed
  have hi: "progressOf j n \<le> 100" if "j < k" for j
    using that assms by (intro progressOf_le_100) simp
  show ?thesis
    using mono hi by (auto simp: sorted_append progressOf_nonneg)
qed

lemma run_shape:
  "\<exists>k\<le>length accounts. \<exists>job'.
     observed jobID (ProcessAsync f henv js jobID accounts fromDate toDate t0 stamp now) =
       map (\<lambda>p. (newJob jobID t0)\<lparr>Progress := p\<rparr>)
         (0 # map (\<lambda>j. progressOf j (length accounts)) [0..<k]) @ [job'] \<and>
     GetJobStatus (last (ProcessAsync f henv js jobID accounts fromDate toDate t0 stamp now)) jobID
       = Some job' \<and>
     (case unitPanic f henv jobID accounts fromDate toDate stamp of
        None \<Rightarrow> k = length accounts \<and>
          job' = (newJob jobID t0)\<lparr>Status := ''completed'', Progress := 100, CompletedAt := Some now\<rparr>
      | Some v \<Rightarrow>
          job' = (newJob jobID t0)\<lparr>Status := ''failed'', Progress := 0,
                   ErrorMessage := ''Internal error: '' @ v, CompletedAt := Some now\<rparr>)"
proof -
  define sf where "sf = ''./downloads/'' @ stamp"
  let ?n = "length accounts"
  let ?R = "accountLoop f henv jobID fromDate toDate sf ?n 0 accounts"
  let ?js0 = "registerJob js jobID t0"
  let ?job0 = "newJob jobID t0"
  from accountLoop_ops [of accounts f henv jobID fromDate toDate sf ?n 0]
  obtain k where kk: "k \<le> ?n \<and> fst ?R = map (\<lambda>j. SetProgress jobID (progressOf j ?n)) [0..<0 + k] \<and>
      (snd (snd ?R) = None \<longrightarrow> k = ?n)"
    by (elim exE)
  define ps where "ps = map (\<lambda>j. progressOf j ?n) [0..<k]"
  have ops: "fst ?R = map (SetProgress jobID) ps"
    using kk by (simp add: ps_def comp_def)
  have k: "k \<le> ?n" and kn: "snd (snd ?R) = None \<longrightarrow> k = ?n" using kk by simp_all
  define final where "final =
    (case snd (snd ?R) of None \<Rightarrow> Complete jobID now
     | Some v \<Rightarrow> SetStatus jobID ''failed'' 0 (''Internal error: '' @ v) now)"
  have unit: "fst (asyncUnit f henv jobID accounts fromDate toDate stamp now) =
      map (SetProgress jobID) ps @ [final]"
    unfolding asyncUnit_def Let_def sf_def [symmetric] final_def
    by (cases "snd (snd ?R)") (simp_all add: ops)
  have run: "ProcessAsync f henv js jobID accounts fromDate toDate t0 stamp now =
      storeTrace ?js0 (map (SetProgress jobID) ps @ [final])"
    by (simp add: ProcessAsync_def unit)
  have j0: "?js0 jobID = Some ?job0"
    by (simp add: registerJob_def newJob_def)
  have p0: "Progress ?job0 = 0" by (simp add: newJob_def)
  define lst where "lst = last (storeTrace ?js0 (map (SetProgress jobID) ps))"
  have lj: "lst jobID = Some (?job0\<lparr>Progress := last (Progress ?job0 # ps)\<rparr>)"
    unfolding lst_def by (rule last_progress [of ?js0 jobID ?job0 ps, OF j0])
  define job' where "job' =
    (case snd (snd ?R) of
       None \<Rightarrow> ?job0\<lparr>Status := ''completed'', Progress := 100, CompletedAt := Some now\<rparr>
     | Some v \<Rightarrow> ?job0\<lparr>Status := ''failed'', Progress := 0,
                   ErrorMessage := ''Internal error: '' @ v, CompletedAt := Some now\<rparr>)"
  have fin: "applyOp final lst jobID = Some job'"
  proof (cases "snd (snd ?R)")
    case None
    then show ?thesis
      using Complete_job [of lst jobID _ now, OF lj] by (simp add: final_def job'_def)
  next
    case (Some v)
    have "''Internal error: '' @ v \<noteq> []" by simp
    from Fail_job [of lst jobID _ _ now, OF lj this] Some show ?thesis
      by (simp add: final_def job'_def)
  qed
  have obs: "observed jobID (ProcessAsync f henv js jobID accounts fromDate toDate t0 stamp now) =
      map (\<lambda>p. ?job0\<lparr>Progress := p\<rparr>) (0 # ps) @ [job']"
    unfolding run using observed_run [of ?js0 jobID ?job0 final ps job', OF j0] fin
    by (simp add: lst_def p0)
  have lastj: "GetJobStatus (last (ProcessAsync f henv js jobID accounts fromDate toDate t0 stamp now))
      jobID = Some job'"
    unfolding run storeTrace_snoc GetJobStatus_def using fin by (simp add: lst_def)
  have cs: "(case unitPanic f henv jobID accounts fromDate toDate stamp of
        None \<Rightarrow> k = length accounts \<and>
          job' = ?job0\<lparr>Status := ''completed'', Progress := 100, CompletedAt := Some now\<rparr>
      | Some v \<Rightarrow>
          job' = ?job0\<lparr>Status := ''failed'', Progress := 0,
                   ErrorMessage := ''Internal error: '' @ v, CompletedAt := Some now\<rparr>)"
    unfolding unitPanic_def sf_def [symmetric] job'_def
    using kn by (cases "snd (snd ?R)") simp_all
  from k obs lastj cs show ?thesis
    unfolding ps_def by (intro exI [of _ k] exI [of _ job'] conjI)
qed

lemma sorted_subseq:
  assumes "subseq xs ys" "sorted ys"
  shows "sorted xs"
  using assms
proof (induction rule: list_emb.induct)
  case (list_emb_Nil ys)
  show ?case by simp
next
  case (list_emb_Cons xs ys y)
  then show ?case by simp
next
  case (list_emb_Cons2 x y xs ys)
  have "set xs \<subseteq> set ys"
    using list_emb_Cons2.hyps(2) by (auto elim: list_emb_set)
  with list_emb_Cons2 show ?case by auto
qed

text \<open>Two runs of a job with two accounts: one whose scraper factory panics and one
  whose factory returns an error and whose second account has no password.\<close>

lemma progressOf_0_2: "progressOf 0 (Suc (Suc 0)) = 50"
proof -
  have "progressOf 0 2 = 50" by (simp add: float64_eval)
  then show ?thesis by (simp add: numeral_2_eq_2)
qed

lemma progressOf_1_2: "progressOf (Suc 0) (Suc (Suc 0)) = 100"
proof -
  have "progressOf 1 2 = 100" by (simp add: float64_eval)
  then show ?thesis by (simp add: numeral_2_eq_2)
qed

lemma panic_run:
  "asyncUnit (\<lambda>c. Panics ''boom'') [] ''job-1'' [''a:p'', ''b:q''] ''2024-01-01'' ''2024-01-31'' ''s'' 9
     = ([SetProgress ''job-1'' 50, SetStatus ''job-1'' ''failed'' 0 ''Internal error: boom'' 9],
        [LogStarting ''job-1'' 2 ''2024-01-01'' ''2024-01-31'', LogPanic ''job-1'' ''boom''])"
  by (simp add: asyncUnit_def downloadAccountData_def credentials_def Let_def progressOf_0_2)

lemma error_run:
  "asyncUnit (\<lambda>c. Returns (Inl ''site unavailable'')) [] ''job-1'' [''a:p'', ''b''] ''2024-01-01''
     ''2024-01-31'' ''s'' 9
     = ([SetProgress ''job-1'' 50, SetProgress ''job-1'' 100, Complete ''job-1'' 9],
        [LogStarting ''job-1'' 2 ''2024-01-01'' ''2024-01-31'',
         LogError ''a:p'' (CreateScraperFailed ''site unavailable''),
         LogError ''b'' (InvalidAccountFormat ''b''),
         LogCompleted ''job-1''])"
  by (simp add: asyncUnit_def downloadAccountData_def credentials_def Let_def progressOf_0_2
      progressOf_1_2)

lemma panic_observed:
  "observed ''job-1'' (ProcessAsync (\<lambda>c. Panics ''boom'') [] Map.empty ''job-1'' [''a:p'', ''b:q'']
     ''2024-01-01'' ''2024-01-31'' 3 ''s'' 9) =
   [newJob ''job-1'' 3, (newJob ''job-1'' 3)\<lparr>Progress := 50\<rparr>,
    (newJob ''job-1'' 3)\<lparr>Status := ''failed'', Progress := 0,
       ErrorMessage := ''Internal error: boom'', CompletedAt := Some 9\<rparr>]"
  by (simp add: ProcessAsync_def panic_run observed_Cons observed_Nil registerJob_def newJob_def
      updateJobProgress_def updateJobStatus_def Let_def)

lemma error_observed:
  "observed ''job-1'' (ProcessAsync (\<lambda>c. Returns (Inl ''site unavailable'')) [] Map.empty ''job-1''
     [''a:p'', ''b''] ''2024-01-01'' ''2024-01-31'' 3 ''s'' 9) =
   [newJob ''job-1'' 3, (newJob ''job-1'' 3)\<lparr>Progress := 50\<rparr>,
    (newJob ''job-1'' 3)\<lparr>Progress := 100\<rparr>,
    (newJob ''job-1'' 3)\<lparr>Status := ''completed'', Progress := 100, CompletedAt := Some 9\<rparr>]"
  by (simp add: ProcessAsync_def error_run observed_Cons observed_Nil registerJob_def newJob_def
      updateJobProgress_def completeJob_def Let_def)

section \<open>The outcome of a job\<close>

text \<open>
  Claim C3. When the goroutine of a job runs its loop to the end without a panic, the
  job ends as completed with progress 100 and a completion time, whatever errors the
  accounts met: until that last write the job is processing and its error message is
  empty, and the error of every account that failed is in the log.
\<close>

theorem job_completed_despite_account_errors:
  assumes "unitPanic f henv jobID accounts fromDate toDate stamp = None"
  shows "GetJobStatus (last (ProcessAsync f henv js jobID accounts fromDate toDate t0 stamp now)) jobID
           = Some \<lparr>ID = jobID, Status = ''completed'', Progress = 100, TotalRecords = 0,
                   ErrorMessage = [], StartedAt = t0, CompletedAt = Some now\<rparr> \<and>
         (\<forall>job \<in> set (butlast (observed jobID
              (ProcessAsync f henv js jobID accounts fromDate toDate t0 stamp now))).
            Status job = ''processing'' \<and> ErrorMessage job = []) \<and>
         (\<forall>a e. a \<in> set accounts \<and>
            snd (downloadAccountData f henv a fromDate toDate (''./downloads/'' @ stamp))
              = Returns (Some e) \<longrightarrow>
            LogError a e \<in> set (snd (asyncUnit f henv jobID accounts fromDate toDate stamp now)))"
proof -
  from run_shape [of accounts jobID f henv js fromDate toDate t0 stamp now]
  obtain k job' where
    obs: "observed jobID (ProcessAsync f henv js jobID accounts fromDate toDate t0 stamp now) =
       map (\<lambda>p. (newJob jobID t0)\<lparr>Progress := p\<rparr>)
         (0 # map (\<lambda>j. progressOf j (length accounts)) [0..<k]) @ [job']"
    and lastj: "GetJobStatus (last (ProcessAsync f henv js jobID accounts fromDate toDate t0 stamp now))
       jobID = Some job'"
    and cs: "(case unitPanic f henv jobID accounts fromDate toDate stamp of
        None \<Rightarrow> k = length accounts \<and>
          job' = (newJob jobID t0)\<lparr>Status := ''completed'', Progress := 100, CompletedAt := Some now\<rparr>
      | Some v \<Rightarrow>
          job' = (newJob jobID t0)\<lparr>Status := ''failed'', Progress := 0,
                   ErrorMessage := ''Internal error: '' @ v, CompletedAt := Some now\<rparr>)"
    by (elim exE conjE)
  from cs assms have job': "job' = (newJob jobID t0)\<lparr>Status := ''completed'', Progress := 100,
      CompletedAt := Some now\<rparr>" by simp
  have one: "GetJobStatus (last (ProcessAsync f henv js jobID accounts fromDate toDate t0 stamp now)) jobID
           = Some \<lparr>ID = jobID, Status = ''completed'', Progress = 100, TotalRecords = 0,
                   ErrorMessage = [], StartedAt = t0, CompletedAt = Some now\<rparr>"
    unfolding lastj job' by (simp add: newJob_def)
  have two: "\<forall>job \<in> set (butlast (observed jobID
              (ProcessAsync f henv js jobID accounts fromDate toDate t0 stamp now))).
            Status job = ''processing'' \<and> ErrorMessage job = []"
    unfolding obs by (auto simp: newJob_def)
  define sf where "sf = ''./downloads/'' @ stamp"
  have nopanic: "snd (snd (accountLoop f henv jobID fromDate toDate sf (length accounts) 0 accounts)) = None"
    using assms unfolding unitPanic_def sf_def .
  have logs: "snd (asyncUnit f henv jobID accounts fromDate toDate stamp now) =
      LogStarting jobID (length accounts) fromDate toDate
        # fst (snd (accountLoop f henv jobID fromDate toDate sf (length accounts) 0 accounts))
        @ [LogCompleted jobID]"
    unfolding asyncUnit_def Let_def sf_def [symmetric] using nopanic by simp
  have three: "LogError a e \<in> set (snd (asyncUnit f henv jobID accounts fromDate toDate stamp now))"
    if "a \<in> set accounts"
      "snd (downloadAccountData f henv a fromDate toDate (''./downloads/'' @ stamp)) = Returns (Some e)"
    for a e
    unfolding logs
    using accountLoop_logs_error [OF nopanic that(1), of e] that(2)
    unfolding sf_def by simp
  from one two three show ?thesis by blast
qed

text \<open>
  A job with two accounts, one refused by the scraper factory and one without a
  password: it is completed at progress 100, and both errors are in the log.
\<close>

theorem job_completed_despite_account_errors_witness:
  "unitPanic (\<lambda>c. Returns (Inl ''site unavailable'')) [] ''job-1'' [''a:p'', ''b'']
     ''2024-01-01'' ''2024-01-31'' ''s'' = None \<and>
   GetJobStatus (last (ProcessAsync (\<lambda>c. Returns (Inl ''site unavailable'')) [] Map.empty ''job-1''
     [''a:p'', ''b''] ''2024-01-01'' ''2024-01-31'' 3 ''s'' 9)) ''job-1''
     = Some \<lparr>ID = ''job-1'', Status = ''completed'', Progress = 100, TotalRecords = 0,
             ErrorMessage = [], StartedAt = 3, CompletedAt = Some 9\<rparr> \<and>
   LogError ''b'' (InvalidAccountFormat ''b'')
     \<in> set (snd (asyncUnit (\<lambda>c. Returns (Inl ''site unavailable'')) [] ''job-1'' [''a:p'', ''b'']
          ''2024-01-01'' ''2024-01-31'' ''s'' 9)) \<and>
   LogError ''a:p'' (CreateScraperFailed ''site unavailable'')
     \<in> set (snd (asyncUnit (\<lambda>c. Returns (Inl ''site unavailable'')) [] ''job-1'' [''a:p'', ''b'']
          ''2024-01-01'' ''2024-01-31'' ''s'' 9))"
proof -
  let ?f = "\<lambda>c. Returns (Inl ''site unavailable'') :: (string + Scraper) outcome"
  have h: "unitPanic ?f [] ''job-1'' [''a:p'', ''b''] ''2024-01-01'' ''2024-01-31'' ''s'' = None"
    by (simp add: unitPanic_def downloadAccountData_def credentials_def Let_def)
  have b: "snd (downloadAccountData ?f [] ''b'' ''2024-01-01'' ''2024-01-31'' (''./downloads/'' @ ''s''))
      = Returns (Some (InvalidAccountFormat ''b''))"
    by (simp add: downloadAccountData_def credentials_def Let_def)
  have a: "snd (downloadAccountData ?f [] ''a:p'' ''2024-01-01'' ''2024-01-31'' (''./downloads/'' @ ''s''))
      = Returns (Some (CreateScraperFailed ''site unavailable''))"
    by (simp add: downloadAccountData_def credentials_def Let_def)
  have m: "''b'' \<in> set [''a:p'', ''b'']" "''a:p'' \<in> set [''a:p'', ''b'']" by simp_all
  from job_completed_despite_account_errors [OF h, of Map.empty 3 9] a b m h
  show ?thesis by blast
qed

section \<open>The progress a status query sees\<close>

text \<open>
  Claim C1. The progress values that successive status queries see for a job never
  decrease and end at 100 once the job is terminal, and no write to the store lowers a
  progress, the failure after a panic included. This holds when the goroutine of the job
  meets no panic: then the values seen, and any selection of them in order, are
  non-decreasing, and the last one is 100 with status completed. The store itself
  compares nothing: \<open>updateJobProgress\<close> and \<open>updateJobStatus\<close> store the progress
  they are given, and after a panic the recover handler stores status failed with
  progress 0, while the values seen before that write are non-decreasing.
\<close>

theorem progress_nondecreasing_without_panic:
  "(unitPanic f henv jobID accounts fromDate toDate stamp = None \<longrightarrow>
      sorted (map Progress (observed jobID
        (ProcessAsync f henv js jobID accounts fromDate toDate t0 stamp now))) \<and>
      (\<forall>seen. subseq seen (map Progress (observed jobID
        (ProcessAsync f henv js jobID accounts fromDate toDate t0 stamp now))) \<longrightarrow> sorted seen) \<and>
      Progress (last (observed jobID
        (ProcessAsync f henv js jobID accounts fromDate toDate t0 stamp now))) = 100 \<and>
      Status (last (observed jobID
        (ProcessAsync f henv js jobID accounts fromDate toDate t0 stamp now))) = ''completed'') \<and>
   (unitPanic f henv jobID accounts fromDate toDate stamp = Some v \<longrightarrow>
      sorted (map Progress (butlast (observed jobID
        (ProcessAsync f henv js jobID accounts fromDate toDate t0 stamp now)))) \<and>
      Progress (last (observed jobID
        (ProcessAsync f henv js jobID accounts fromDate toDate t0 stamp now))) = 0 \<and>
      Status (last (observed jobID
        (ProcessAsync f henv js jobID accounts fromDate toDate t0 stamp now))) = ''failed'') \<and>
   (GetJobStatus js jobID = Some job \<longrightarrow>
      map_option Progress (GetJobStatus (updateJobProgress js jobID p) jobID) = Some p \<and>
      map_option Progress (GetJobStatus (updateJobStatus js jobID status p msg now) jobID) = Some p)"
proof -
  let ?obs = "observed jobID (ProcessAsync f henv js jobID accounts fromDate toDate t0 stamp now)"
  from run_shape [of accounts jobID f henv js fromDate toDate t0 stamp now]
  obtain k job' where k: "k \<le> length accounts" and
    obs: "?obs = map (\<lambda>p. (newJob jobID t0)\<lparr>Progress := p\<rparr>)
         (0 # map (\<lambda>j. progressOf j (length accounts)) [0..<k]) @ [job']"
    and cs: "(case unitPanic f henv jobID accounts fromDate toDate stamp of
        None \<Rightarrow> k = length accounts \<and>
          job' = (newJob jobID t0)\<lparr>Status := ''completed'', Progress := 100, CompletedAt := Some now\<rparr>
      | Some v \<Rightarrow>
          job' = (newJob jobID t0)\<lparr>Status := ''failed'', Progress := 0,
                   ErrorMessage := ''Internal error: '' @ v, CompletedAt := Some now\<rparr>)"
    by (elim exE conjE)
  have prog: "map Progress ?obs =
      0 # map (\<lambda>j. progressOf j (length accounts)) [0..<k] @ [Progress job']"
    unfolding obs by (simp add: comp_def)
  have srt: "sorted (0 # map (\<lambda>j. progressOf j (length accounts)) [0..<k] @ [100])"
    using k by (rule progress_list_sorted)
  have a: "sorted (map Progress ?obs) \<and>
      (\<forall>seen. subseq seen (map Progress ?obs) \<longrightarrow> sorted seen) \<and>
      Progress (last ?obs) = 100 \<and> Status (last ?obs) = ''completed''"
    if "unitPanic f henv jobID accounts fromDate toDate stamp = None"
  proof -
    from cs that have job': "job' = (newJob jobID t0)\<lparr>Status := ''completed'', Progress := 100,
        CompletedAt := Some now\<rparr>" by simp
    have s: "sorted (map Progress ?obs)"
      unfolding prog using srt by (simp add: job')
    moreover have "sorted seen" if "subseq seen (map Progress ?obs)" for seen
      using that s by (rule sorted_subseq)
    moreover have "last ?obs = job'" unfolding obs by simp
    ultimately show ?thesis by (simp add: job')
  qed
  have b: "sorted (map Progress (butlast ?obs)) \<and> Progress (last ?obs) = 0 \<and>
      Status (last ?obs) = ''failed''"
    if "unitPanic f henv jobID accounts fromDate toDate stamp = Some v"
  proof -
    from cs that have job': "job' = (newJob jobID t0)\<lparr>Status := ''failed'', Progress := 0,
        ErrorMessage := ''Internal error: '' @ v, CompletedAt := Some now\<rparr>" by simp
    have "butlast ?obs = map (\<lambda>p. (newJob jobID t0)\<lparr>Progress := p\<rparr>)
         (0 # map (\<lambda>j. progressOf j (length accounts)) [0..<k])"
      unfolding obs by (simp add: butlast_append)
    then have "map Progress (butlast ?obs) = 0 # map (\<lambda>j. progressOf j (length accounts)) [0..<k]"
      by (simp add: comp_def)
    moreover have "sorted (0 # map (\<lambda>j. progressOf j (length accounts)) [0..<k])"
      using srt by (simp add: sorted_append)
    moreover have "last ?obs = job'" unfolding obs by simp
    ultimately show ?thesis by (simp add: job')
  qed
  have c: "map_option Progress (GetJobStatus (updateJobProgress js jobID p) jobID) = Some p \<and>
      map_option Progress (GetJobStatus (updateJobStatus js jobID status p msg now) jobID) = Some p"
    if "GetJobStatus js jobID = Some job"
    using that by (simp add: GetJobStatus_def updateJobProgress_def updateJobStatus_def Let_def)
  from a b c show ?thesis by blast
qed

text \<open>
  The two runs of a job with two accounts: with a factory that returns an error the
  queries see 0, 50, 100, 100, and with a factory that panics the job ends failed at
  progress 0.
\<close>

theorem progress_nondecreasing_without_panic_witness:
  "unitPanic (\<lambda>c. Returns (Inl ''site unavailable'')) [] ''job-1'' [''a:p'', ''b'']
     ''2024-01-01'' ''2024-01-31'' ''s'' = None \<and>
   map Progress (observed ''job-1'' (ProcessAsync (\<lambda>c. Returns (Inl ''site unavailable'')) []
     Map.empty ''job-1'' [''a:p'', ''b''] ''2024-01-01'' ''2024-01-31'' 3 ''s'' 9)) = [0, 50, 100, 100] \<and>
   sorted (map Progress (observed ''job-1'' (ProcessAsync (\<lambda>c. Returns (Inl ''site unavailable'')) []
     Map.empty ''job-1'' [''a:p'', ''b''] ''2024-01-01'' ''2024-01-31'' 3 ''s'' 9))) \<and>
   subseq [0, 100] (map Progress (observed ''job-1'' (ProcessAsync
     (\<lambda>c. Returns (Inl ''site unavailable'')) [] Map.empty ''job-1'' [''a:p'', ''b''] ''2024-01-01''
     ''2024-01-31'' 3 ''s'' 9))) \<and>
   sorted [0 :: int, 100] \<and>
   unitPanic (\<lambda>c. Panics ''boom'') [] ''job-1'' [''a:p'', ''b:q''] ''2024-01-01'' ''2024-01-31'' ''s''
     = Some ''boom'' \<and>
   Status (last (observed ''job-1'' (ProcessAsync (\<lambda>c. Panics ''boom'') [] Map.empty ''job-1''
     [''a:p'', ''b:q''] ''2024-01-01'' ''2024-01-31'' 3 ''s'' 9))) = ''failed'' \<and>
   GetJobStatus [''job-1'' \<mapsto> newJob ''job-1'' 3] ''job-1'' = Some (newJob ''job-1'' 3) \<and>
   map_option Progress (GetJobStatus (updateJobProgress [''job-1'' \<mapsto> newJob ''job-1'' 3] ''job-1'' 50)
     ''job-1'') = Some 50"
proof -
  let ?f = "\<lambda>c. Returns (Inl ''site unavailable'') :: (string + Scraper) outcome"
  let ?g = "\<lambda>c. Panics ''boom'' :: (string + Scraper) outcome"
  let ?js = "[''job-1'' \<mapsto> newJob ''job-1'' 3]"
  have h1: "unitPanic ?f [] ''job-1'' [''a:p'', ''b''] ''2024-01-01'' ''2024-01-31'' ''s'' = None"
    by (simp add: unitPanic_def downloadAccountData_def credentials_def Let_def)
  have h2: "unitPanic ?g [] ''job-1'' [''a:p'', ''b:q''] ''2024-01-01'' ''2024-01-31'' ''s'' = Some ''boom''"
    by (simp add: unitPanic_def downloadAccountData_def credentials_def Let_def)
  have h3: "GetJobStatus ?js ''job-1'' = Some (newJob ''job-1'' 3)"
    by (simp add: GetJobStatus_def)
  have e: "map Progress (observed ''job-1'' (ProcessAsync ?f [] Map.empty ''job-1'' [''a:p'', ''b'']
      ''2024-01-01'' ''2024-01-31'' 3 ''s'' 9)) = [0, 50, 100, 100]"
    by (simp add: error_observed newJob_def)
  have sub: "subseq [0, 100] (map Progress (observed ''job-1'' (ProcessAsync ?f [] Map.empty ''job-1''
      [''a:p'', ''b''] ''2024-01-01'' ''2024-01-31'' 3 ''s'' 9)))"
    unfolding e by simp
  from progress_nondecreasing_without_panic [of ?f "[]" "''job-1''" "[''a:p'', ''b'']" "''2024-01-01''"
      "''2024-01-31''" "''s''" Map.empty 3 9 "''boom''" "newJob ''job-1'' 3" 50 "''failed''" "[]"]
    h1 sub
  have r1: "sorted (map Progress (observed ''job-1'' (ProcessAsync ?f [] Map.empty ''job-1''
      [''a:p'', ''b''] ''2024-01-01'' ''2024-01-31'' 3 ''s'' 9)))" and r2: "sorted [0 :: int, 100]"
    by blast+
  from progress_nondecreasing_without_panic [of ?g "[]" "''job-1''" "[''a:p'', ''b:q'']" "''2024-01-01''"
      "''2024-01-31''" "''s''" Map.empty 3 9 "''boom''" "newJob ''job-1'' 3" 50 "''failed''" "[]"]
    h2
  have r3: "Status (last (observed ''job-1'' (ProcessAsync ?g [] Map.empty ''job-1''
     [''a:p'', ''b:q''] ''2024-01-01'' ''2024-01-31'' 3 ''s'' 9))) = ''failed''"
    by blast
  from progress_nondecreasing_without_panic [of ?g "[]" "''job-1''" "[''a:p'', ''b:q'']" "''2024-01-01''"
      "''2024-01-31''" "''s''" ?js 3 9 "''boom''" "newJob ''job-1'' 3" 50 "''failed''" "[]"]
    h3
  have r4: "map_option Progress (GetJobStatus (updateJobProgress ?js ''job-1'' 50) ''job-1'') = Some 50"
    by blast
  from h1 h2 h3 e sub r1 r2 r3 r4 show ?thesis by (intro conjI)
qed

text \<open>
  A job with two accounts whose scraper factory panics at the first one: the queries
  see the progress 0, then 50, then 0, and the job is failed with progress 0. The write
  of the recover handler has lowered the progress from 50 to 0.
\<close>

theorem progress_lowered_by_panic_counterexample:
  "map Progress (observed ''job-1'' (ProcessAsync (\<lambda>c. Panics ''boom'') [] Map.empty ''job-1''
     [''a:p'', ''b:q''] ''2024-01-01'' ''2024-01-31'' 3 ''s'' 9)) = [0, 50, 0] \<and>
   \<not> sorted [0 :: int, 50, 0] \<and>
   Status (last (observed ''job-1'' (ProcessAsync (\<lambda>c. Panics ''boom'') [] Map.empty ''job-1''
     [''a:p'', ''b:q''] ''2024-01-01'' ''2024-01-31'' 3 ''s'' 9))) = ''failed'' \<and>
   Progress (last (observed ''job-1'' (ProcessAsync (\<lambda>c. Panics ''boom'') [] Map.empty ''job-1''
     [''a:p'', ''b:q''] ''2024-01-01'' ''2024-01-31'' 3 ''s'' 9))) \<noteq> 100 \<and>
   map_option Progress (GetJobStatus
     (updateJobStatus [''job-1'' \<mapsto> (newJob ''job-1'' 3)\<lparr>Progress := 50\<rparr>] ''job-1'' ''failed'' 0
        ''Internal error: boom'' 9) ''job-1'') = Some 0"
  by (simp add: panic_observed newJob_def GetJobStatus_def updateJobStatus_def Let_def)

section \<open>Properties of the account configuration\<close>

lemma json_example:
  "jsonUnmarshalStrings ''[\"u1:p1\",\"u2:p2\"]'' = Some [''u1:p1'', ''u2:p2'']"
  by (simp add: jsonUnmarshalStrings_def skipWS_def isJSONSpace_def jsonElements.simps
      jsonElement_def unquoteStep_def)

lemma json_malformed: "jsonUnmarshalStrings ''[not json'' = None"
  by (simp add: jsonUnmarshalStrings_def skipWS_def isJSONSpace_def jsonElements.simps
      jsonElement_def unquoteStep_def)

lemma TrimSpace_examples:
  "TrimSpace ''[\"u1:p1\",\"u2:p2\"]'' = ''[\"u1:p1\",\"u2:p2\"]''"
  "TrimSpace ''[not json'' = ''[not json''"
  "TrimSpace ''u1:p1,u2:p2'' = ''u1:p1,u2:p2''"
  "TrimSpace ''u1:p1'' = ''u1:p1''"
  by (simp_all add: TrimSpace_def spaceRunes_def)

lemma json_spaced_example:
  "jsonUnmarshalStrings ''[\"a:b\", \"c:d\"]'' = Some [''a:b'', ''c:d'']"
  by (simp add: jsonUnmarshalStrings_def skipWS_def isJSONSpace_def jsonElements.simps
      jsonElement_def unquoteStep_def)

lemma HasPrefix_TrimSpace_nonempty: "HasPrefix (TrimSpace s) ''['' \<Longrightarrow> s \<noteq> []"
  by (auto simp: TrimSpace_def HasPrefix_def)

lemma parseAccountsString_nonempty:
  "s \<noteq> [] \<Longrightarrow> parseAccountsString s = parseAccounts_spec s"
  by (simp add: parseAccountsString_def parseAccounts_spec_def split: option.splits)

text \<open>The decoder returns the accounts of an array written in the form above.\<close>

lemma unquoteStep_plain: "plainByte c \<Longrightarrow> unquoteStep (c # cs) = Emit [c] 1"
  by (simp add: unquoteStep_def plainByte_def)

lemma unquote_plain:
  "\<forall>c\<in>set a. plainByte c \<Longrightarrow> unquote (a @ CHR 0x22 # rest) = Some (a, rest)"
proof (induction a)
  case Nil
  show ?case by (simp add: unquoteStep_def)
next
  case (Cons c a)
  then have p: "plainByte c" and IH: "unquote (a @ CHR 0x22 # rest) = Some (a, rest)" by simp_all
  show ?case by (simp add: unquoteStep_plain [OF p] IH)
qed

lemma jsonElement_quoted:
  "\<forall>c\<in>set a. plainByte c \<Longrightarrow> jsonElement (quoted a @ rest) = Some (a, rest)"
  using unquote_plain [of a rest] by (simp add: jsonElement_def quoted_def)

lemma Join_quoted_Cons:
  "Join (map quoted (a # as)) CHR '','' =
     quoted a @ (if as = [] then [] else CHR '','' # Join (map quoted as) CHR '','')"
  by (cases as) simp_all

lemma skipWS_quoted: "skipWS (quoted a @ rest) = quoted a @ rest"
  by (simp add: skipWS_def quoted_def isJSONSpace_def)

lemma jsonElements_quoted:
  "\<forall>a\<in>set (a # as). \<forall>c\<in>set a. plainByte c \<Longrightarrow>
   jsonElements (Join (map quoted (a # as)) CHR '','' @ [CHR '']'']) = Some (a # as)"
proof (induction as arbitrary: a)
  case Nil
  then have e: "jsonElement (quoted a @ [CHR '']'']) = Some (a, [CHR '']''])"
    by (simp add: jsonElement_quoted)
  show ?case
    by (subst jsonElements.simps) (simp add: e skipWS_def isJSONSpace_def)
next
  case (Cons b as)
  let ?rest = "CHR '','' # Join (map quoted (b # as)) CHR '','' @ [CHR '']'']"
  from Cons.prems have e: "jsonElement (quoted a @ ?rest) = Some (a, ?rest)"
    by (simp add: jsonElement_quoted)
  from Cons.prems have "\<forall>a\<in>set (b # as). \<forall>c\<in>set a. plainByte c" by simp
  from Cons.IH [OF this]
  have IH: "jsonElements (Join (map quoted (b # as)) CHR '','' @ [CHR '']'']) = Some (b # as)" .
  have j: "Join (map quoted (a # b # as)) CHR '','' @ [CHR '']''] = quoted a @ ?rest"
    by simp
  have s1: "skipWS ?rest = ?rest" by (simp add: skipWS_def isJSONSpace_def)
  have s2: "skipWS (Join (map quoted (b # as)) CHR '','' @ [CHR '']'']) =
            Join (map quoted (b # as)) CHR '','' @ [CHR '']'']"
    using skipWS_quoted [of b "(if as = [] then [] else CHR '','' # Join (map quoted as) CHR '','') @ [CHR '']'']"]
    by (simp only: Join_quoted_Cons append_assoc)
  show ?case
    unfolding j
    by (subst jsonElements.simps) (simp only: e s1 s2 IH option.case prod.case list.case, simp)
qed

lemma jsonUnmarshalStrings_arrayLiteral:
  assumes "\<forall>a\<in>set accounts. \<forall>c\<in>set a. plainByte c"
  shows "jsonUnmarshalStrings (arrayLiteral accounts) = Some accounts"
proof (cases accounts)
  case Nil
  then show ?thesis
    by (simp add: jsonUnmarshalStrings_def arrayLiteral_def skipWS_def isJSONSpace_def)
next
  case (Cons a as)
  define r where "r = Join (map quoted (a # as)) CHR '','' @ [CHR '']'']"
  define t where "t = a @ [CHR 0x22] @ (if as = [] then [] else CHR '','' # Join (map quoted as) CHR '','') @ [CHR '']'']"
  from Cons assms have e: "jsonElements r = Some (a # as)"
    unfolding r_def by (intro jsonElements_quoted) simp
  have q: "r = CHR 0x22 # t"
    unfolding r_def t_def
    by (simp only: Join_quoted_Cons quoted_def append_assoc append_Cons append_Nil)
  have s2: "skipWS r = r"
    by (simp add: q skipWS_def isJSONSpace_def)
  have s1: "skipWS (CHR ''['' # r) = CHR ''['' # r"
    by (simp add: skipWS_def isJSONSpace_def)
  have "jsonUnmarshalStrings (CHR ''['' # r) = jsonElements r"
    unfolding jsonUnmarshalStrings_def
    by (simp only: s1 s2 list.case) (simp add: q)
  then show ?thesis
    unfolding Cons arrayLiteral_def r_def [symmetric] by (simp only: e)
qed

lemma TrimSpace_arrayLiteral: "TrimSpace (arrayLiteral accounts) = arrayLiteral accounts"
  by (simp add: TrimSpace_def arrayLiteral_def spaceRunes_def)

text \<open>
  Claim C6. \<open>parseAccountsString\<close> accepts two encodings. When the text, white space
  trimmed, starts with an opening bracket and \<open>json.Unmarshal\<close> decodes the text as an
  array of strings, the result is the decoded array; otherwise, also when the text
  starts with a bracket and does not decode, the result is the text split at the commas.
  The text is not empty where the function is called: each of its three calls, all in
  \<open>GetAllAccountsWithCredentials\<close>, is guarded by a test of the variable against the
  empty string, so that function returns what the two encodings give for the variables
  that are set. An array written with quoted accounts of plain bytes decodes to these
  accounts. The three examples of the claim evaluate as it says.
\<close>

theorem parseAccountsString_two_encodings:
  "(HasPrefix (TrimSpace s) ''['' \<and> jsonUnmarshalStrings s = Some accounts \<longrightarrow>
      parseAccountsString s = accounts) \<and>
   (s \<noteq> [] \<and> \<not> (HasPrefix (TrimSpace s) ''['' \<and> jsonUnmarshalStrings s \<noteq> None) \<longrightarrow>
      parseAccountsString s = Split s CHR '','') \<and>
   (s \<noteq> [] \<longrightarrow> parseAccountsString s = parseAccounts_spec s) \<and>
   ((\<forall>a\<in>set written. \<forall>c\<in>set a. plainByte c) \<longrightarrow>
      parseAccountsString (arrayLiteral written) = written) \<and>
   GetAllAccountsWithCredentials env =
     (if ETC_CORP_ACCOUNTS env \<noteq> [] then parseAccounts_spec (ETC_CORP_ACCOUNTS env)
      else (if ETC_CORPORATE_ACCOUNTS env \<noteq> []
            then parseAccounts_spec (ETC_CORPORATE_ACCOUNTS env) else []) @
           (if ETC_PERSONAL_ACCOUNTS env \<noteq> []
            then parseAccounts_spec (ETC_PERSONAL_ACCOUNTS env) else [])) \<and>
   parseAccountsString ''[\"u1:p1\",\"u2:p2\"]'' = [''u1:p1'', ''u2:p2''] \<and>
   parseAccountsString ''u1:p1,u2:p2'' = [''u1:p1'', ''u2:p2''] \<and>
   parseAccountsString ''[not json'' = [''[not json'']"
proof -
  have one: "HasPrefix (TrimSpace s) ''['' \<and> jsonUnmarshalStrings s = Some accounts \<longrightarrow>
      parseAccountsString s = accounts"
  proof
    assume a: "HasPrefix (TrimSpace s) ''['' \<and> jsonUnmarshalStrings s = Some accounts"
    then have "s \<noteq> []" by (simp add: HasPrefix_TrimSpace_nonempty)
    with a show "parseAccountsString s = accounts" by (simp add: parseAccountsString_def)
  qed
  have two: "s \<noteq> [] \<and> \<not> (HasPrefix (TrimSpace s) ''['' \<and> jsonUnmarshalStrings s \<noteq> None) \<longrightarrow>
      parseAccountsString s = Split s CHR '',''"
    by (auto simp: parseAccountsString_def split: option.splits)
  have three: "s \<noteq> [] \<longrightarrow> parseAccountsString s = parseAccounts_spec s"
    by (simp add: parseAccountsString_nonempty)
  have four: "(\<forall>a\<in>set written. \<forall>c\<in>set a. plainByte c) \<longrightarrow>
      parseAccountsString (arrayLiteral written) = written"
  proof
    assume p: "\<forall>a\<in>set written. \<forall>c\<in>set a. plainByte c"
    have n: "arrayLiteral written \<noteq> []" by (simp add: arrayLiteral_def)
    have h: "HasPrefix (TrimSpace (arrayLiteral written)) ''[''"
      unfolding TrimSpace_arrayLiteral by (simp add: arrayLiteral_def HasPrefix_def)
    show "parseAccountsString (arrayLiteral written) = written"
      unfolding parseAccountsString_def
      by (simp only: n h jsonUnmarshalStrings_arrayLiteral [OF p] if_False if_True option.case)
  qed
  have five: "GetAllAccountsWithCredentials env =
     (if ETC_CORP_ACCOUNTS env \<noteq> [] then parseAccounts_spec (ETC_CORP_ACCOUNTS env)
      else (if ETC_CORPORATE_ACCOUNTS env \<noteq> []
            then parseAccounts_spec (ETC_CORPORATE_ACCOUNTS env) else []) @
           (if ETC_PERSONAL_ACCOUNTS env \<noteq> []
            then parseAccounts_spec (ETC_PERSONAL_ACCOUNTS env) else []))"
    by (simp add: GetAllAccountsWithCredentials_def Let_def parseAccountsString_nonempty)
  have six: "parseAccountsString ''[\"u1:p1\",\"u2:p2\"]'' = [''u1:p1'', ''u2:p2'']"
    by (simp add: parseAccountsString_def TrimSpace_examples HasPrefix_def json_example)
  have seven: "parseAccountsString ''u1:p1,u2:p2'' = [''u1:p1'', ''u2:p2'']"
    by (simp add: parseAccountsString_def TrimSpace_examples HasPrefix_def)
  have eight: "parseAccountsString ''[not json'' = [''[not json'']"
    by (simp add: parseAccountsString_def TrimSpace_examples HasPrefix_def json_malformed)
  from one two three four five six seven eight show ?thesis by (intro conjI)
qed

theorem parseAccountsString_two_encodings_witness:
  "HasPrefix (TrimSpace ''[\"a:b\", \"c:d\"]'') ''['' \<and>
   jsonUnmarshalStrings ''[\"a:b\", \"c:d\"]'' = Some [''a:b'', ''c:d''] \<and>
   parseAccountsString ''[\"a:b\", \"c:d\"]'' = [''a:b'', ''c:d''] \<and>
   ''a:b,c:d'' \<noteq> [] \<and> \<not> HasPrefix (TrimSpace ''a:b,c:d'') ''['' \<and>
   parseAccountsString ''a:b,c:d'' = Split ''a:b,c:d'' CHR '','' \<and>
   parseAccountsString ''a:b,c:d'' = parseAccounts_spec ''a:b,c:d'' \<and>
   Split ''a:b,c:d'' CHR '','' = [''a:b'', ''c:d''] \<and>
   list_all (list_all plainByte) [''a:b'', ''c:d''] \<and>
   arrayLiteral [''a:b'', ''c:d''] = ''[\"a:b\",\"c:d\"]'' \<and>
   parseAccountsString ''[\"a:b\",\"c:d\"]'' = [''a:b'', ''c:d'']"
proof -
  let ?s1 = "''[\"a:b\", \"c:d\"]''" and ?s2 = "''a:b,c:d''" and ?w = "[''a:b'', ''c:d'']"
  have h: "HasPrefix (TrimSpace ?s1) ''[''"
    by (simp add: TrimSpace_def spaceRunes_def HasPrefix_def)
  have j: "jsonUnmarshalStrings ?s1 = Some ?w"
    by (rule json_spaced_example)
  have n: "?s2 \<noteq> []" by simp
  have t: "\<not> HasPrefix (TrimSpace ?s2) ''[''"
    by (simp add: TrimSpace_def spaceRunes_def HasPrefix_def)
  have sp: "Split ?s2 CHR '','' = ?w" by simp
  have p: "\<forall>a\<in>set ?w. \<forall>c\<in>set a. plainByte c"
    by (simp add: plainByte_def)
  have p': "list_all (list_all plainByte) ?w"
    by (simp add: plainByte_def)
  have l: "arrayLiteral ?w = ''[\"a:b\",\"c:d\"]''"
    by (simp add: arrayLiteral_def quoted_def)
  have i1: "HasPrefix (TrimSpace ?s1) ''['' \<and> jsonUnmarshalStrings ?s1 = Some ?w \<longrightarrow>
            parseAccountsString ?s1 = ?w"
    using parseAccountsString_two_encodings [where s = ?s1 and accounts = ?w, THEN conjunct1] .
  have r1: "parseAccountsString ?s1 = ?w"
    by (rule mp [OF i1]) (intro conjI h j)
  have i2: "?s2 \<noteq> [] \<and> \<not> (HasPrefix (TrimSpace ?s2) ''['' \<and> jsonUnmarshalStrings ?s2 \<noteq> None) \<longrightarrow>
            parseAccountsString ?s2 = Split ?s2 CHR '',''"
    using parseAccountsString_two_encodings [where s = ?s2, THEN conjunct2, THEN conjunct1] .
  have r2: "parseAccountsString ?s2 = Split ?s2 CHR '',''"
  proof (rule mp [OF i2], intro conjI n notI)
    assume "HasPrefix (TrimSpace ?s2) ''['' \<and> jsonUnmarshalStrings ?s2 \<noteq> None"
    then have "HasPrefix (TrimSpace ?s2) ''[''" by (rule conjunct1)
    with t show False by (rule notE)
  qed
  have i3: "?s2 \<noteq> [] \<longrightarrow> parseAccountsString ?s2 = parseAccounts_spec ?s2"
    using parseAccountsString_two_encodings
      [where s = ?s2, THEN conjunct2, THEN conjunct2, THEN conjunct1] .
  have r3: "parseAccountsString ?s2 = parseAccounts_spec ?s2"
    by (rule mp [OF i3 n])
  have i4: "(\<forall>a\<in>set ?w. \<forall>c\<in>set a. plainByte c) \<longrightarrow>
            parseAccountsString (arrayLiteral ?w) = ?w"
    using parseAccountsString_two_encodings
      [where written = ?w, THEN conjunct2, THEN conjunct2, THEN conjunct2, THEN conjunct1] .
  have r4: "parseAccountsString (arrayLiteral ?w) = ?w"
    by (rule mp [OF i4 p])
  have r5: "parseAccountsString ''[\"a:b\",\"c:d\"]'' = ?w"
    using r4 unfolding l .
  from h j r1 n t r2 r3 sp p' l r5 show ?thesis by (intro conjI)
qed

section \<open>Properties of the gRPC service\<close>

lemma GetAllAccountIDs_map:
  "GetAllAccountIDs env =
     map (\<lambda>a. takeWhile (\<lambda>c. c \<noteq> CHR '':'') (TrimSpace a)) (GetAllAccountsWithCredentials env)"
proof -
  have step: "(let parts = Split (TrimSpace a) CHR '':''
               in if Suc 0 \<le> length parts then ids @ [parts ! 0] else ids)
      = ids @ [takeWhile (\<lambda>c. c \<noteq> CHR '':'') (TrimSpace a)]" for ids a
    using Split_not_Nil [of "TrimSpace a" "CHR '':''"]
    by (cases "Split (TrimSpace a) CHR '':''") (simp_all add: Let_def nth0_Split [symmetric])
  have "foldl (\<lambda>accountIDs accountStr.
              let parts = Split (TrimSpace accountStr) CHR '':''
              in if length parts \<ge> 1 then accountIDs @ [parts ! 0] else accountIDs) ids xs
      = ids @ map (\<lambda>a. takeWhile (\<lambda>c. c \<noteq> CHR '':'') (TrimSpace a)) xs" for ids xs
    by (induction xs arbitrary: ids) (simp_all add: step)
  then show ?thesis by (simp add: GetAllAccountIDs_def)
qed

text \<open>
  Claim C5. With no account in the request and none configured, \<open>DownloadAsync\<close>
  answers with an empty job id and status failed and leaves the store as it was, so a
  job that was not found before is not found after. Otherwise it answers with the
  generated identifier and status pending, has registered a processing job under that
  identifier and nothing else, and has handed the identifier, the accounts of the
  request or else the configured ones, and the dates to \<open>ProcessAsync\<close>.
\<close>

theorem DownloadAsync_no_accounts_or_pending:
  "(Accounts req = [] \<and> GetAllAccountsWithCredentials env = [] \<longrightarrow>
      DownloadAsync env today lastMonth newUUID now js req =
        (\<lparr>JobId = [], Status_resp = ''failed'', Message = ''No accounts configured''\<rparr>, js, None) \<and>
      (GetJobStatus js jobID = None \<longrightarrow>
         GetJobStatus (fst (snd (DownloadAsync env today lastMonth newUUID now js req))) jobID = None)) \<and>
   (\<not> (Accounts req = [] \<and> GetAllAccountsWithCredentials env = []) \<longrightarrow>
      fst (DownloadAsync env today lastMonth newUUID now js req) =
        \<lparr>JobId = newUUID, Status_resp = ''pending'', Message = ''Download job started''\<rparr> \<and>
      GetJobStatus (fst (snd (DownloadAsync env today lastMonth newUUID now js req))) newUUID =
        Some (newJob newUUID now) \<and>
      (jobID \<noteq> newUUID \<longrightarrow>
         GetJobStatus (fst (snd (DownloadAsync env today lastMonth newUUID now js req))) jobID =
           GetJobStatus js jobID) \<and>
      map_option startedJobID (snd (snd (DownloadAsync env today lastMonth newUUID now js req))) =
        Some newUUID \<and>
      map_option startedAccounts (snd (snd (DownloadAsync env today lastMonth newUUID now js req))) =
        Some (if Accounts req = [] then GetAllAccountsWithCredentials env else Accounts req))"
  by (auto simp: DownloadAsync_def Let_def GetJobStatus_def registerJob_def newJob_def)

text \<open>
  A service without configured accounts and with an empty store: a request without
  accounts is refused and no job can be found; a request with one account is started
  under the generated identifier.
\<close>

theorem DownloadAsync_no_accounts_or_pending_witness:
  "GetAllAccountsWithCredentials \<lparr>ETC_CORP_ACCOUNTS = [], ETC_CORPORATE_ACCOUNTS = [],
      ETC_PERSONAL_ACCOUNTS = [], ETC_HEADLESS = []\<rparr> = [] \<and>
   DownloadAsync \<lparr>ETC_CORP_ACCOUNTS = [], ETC_CORPORATE_ACCOUNTS = [],
      ETC_PERSONAL_ACCOUNTS = [], ETC_HEADLESS = []\<rparr> ''2024-02-15'' ''2024-01-15'' ''id-7'' 3
      Map.empty \<lparr>Accounts = [], FromDate = [], ToDate = []\<rparr> =
     (\<lparr>JobId = [], Status_resp = ''failed'', Message = ''No accounts configured''\<rparr>, Map.empty, None) \<and>
   GetJobStatus (fst (snd (DownloadAsync \<lparr>ETC_CORP_ACCOUNTS = [], ETC_CORPORATE_ACCOUNTS = [],
      ETC_PERSONAL_ACCOUNTS = [], ETC_HEADLESS = []\<rparr> ''2024-02-15'' ''2024-01-15'' ''id-7'' 3
      Map.empty \<lparr>Accounts = [], FromDate = [], ToDate = []\<rparr>))) ''id-7'' = None \<and>
   fst (DownloadAsync \<lparr>ETC_CORP_ACCOUNTS = [], ETC_CORPORATE_ACCOUNTS = [],
      ETC_PERSONAL_ACCOUNTS = [], ETC_HEADLESS = []\<rparr> ''2024-02-15'' ''2024-01-15'' ''id-7'' 3
      Map.empty \<lparr>Accounts = [''a:p''], FromDate = [], ToDate = []\<rparr>) =
     \<lparr>JobId = ''id-7'', Status_resp = ''pending'', Message = ''Download job started''\<rparr> \<and>
   GetJobStatus (fst (snd (DownloadAsync \<lparr>ETC_CORP_ACCOUNTS = [], ETC_CORPORATE_ACCOUNTS = [],
      ETC_PERSONAL_ACCOUNTS = [], ETC_HEADLESS = []\<rparr> ''2024-02-15'' ''2024-01-15'' ''id-7'' 3
      Map.empty \<lparr>Accounts = [''a:p''], FromDate = [], ToDate = []\<rparr>))) ''id-7'' =
     Some (newJob ''id-7'' 3) \<and>
   GetJobStatus (fst (snd (DownloadAsync \<lparr>ETC_CORP_ACCOUNTS = [], ETC_CORPORATE_ACCOUNTS = [],
      ETC_PERSONAL_ACCOUNTS = [], ETC_HEADLESS = []\<rparr> ''2024-02-15'' ''2024-01-15'' ''id-7'' 3
      Map.empty \<lparr>Accounts = [''a:p''], FromDate = [], ToDate = []\<rparr>))) ''id-8'' = None"
proof -
  let ?env = "\<lparr>ETC_CORP_ACCOUNTS = [], ETC_CORPORATE_ACCOUNTS = [],
      ETC_PERSONAL_ACCOUNTS = [], ETC_HEADLESS = []\<rparr>"
  let ?r0 = "\<lparr>Accounts = [], FromDate = [], ToDate = []\<rparr>"
  let ?r1 = "\<lparr>Accounts = [''a:p''], FromDate = [], ToDate = []\<rparr>"
  have none: "GetAllAccountsWithCredentials ?env = []"
    by (simp add: GetAllAccountsWithCredentials_def)
  have a0: "Accounts ?r0 = []" and a1: "\<not> (Accounts ?r1 = [] \<and> GetAllAccountsWithCredentials ?env = [])"
    by simp_all
  have e: "GetJobStatus Map.empty ''id-7'' = None" "GetJobStatus Map.empty ''id-8'' = None"
    "''id-8'' \<noteq> ''id-7''"
    by (simp_all add: GetJobStatus_def)
  from DownloadAsync_no_accounts_or_pending [of ?r0 ?env "''2024-02-15''" "''2024-01-15''" "''id-7''" 3
      Map.empty "''id-7''"] none a0 e
  have p0: "DownloadAsync ?env ''2024-02-15'' ''2024-01-15'' ''id-7'' 3 Map.empty ?r0 =
     (\<lparr>JobId = [], Status_resp = ''failed'', Message = ''No accounts configured''\<rparr>, Map.empty, None)"
    and p1: "GetJobStatus (fst (snd (DownloadAsync ?env ''2024-02-15'' ''2024-01-15'' ''id-7'' 3
      Map.empty ?r0))) ''id-7'' = None"
    by blast+
  from DownloadAsync_no_accounts_or_pending [of ?r1 ?env "''2024-02-15''" "''2024-01-15''" "''id-7''" 3
      Map.empty "''id-8''"] a1 e
  have p2: "fst (DownloadAsync ?env ''2024-02-15'' ''2024-01-15'' ''id-7'' 3 Map.empty ?r1) =
     \<lparr>JobId = ''id-7'', Status_resp = ''pending'', Message = ''Download job started''\<rparr>"
    and p3: "GetJobStatus (fst (snd (DownloadAsync ?env ''2024-02-15'' ''2024-01-15'' ''id-7'' 3
      Map.empty ?r1))) ''id-7'' = Some (newJob ''id-7'' 3)"
    and p4: "GetJobStatus (fst (snd (DownloadAsync ?env ''2024-02-15'' ''2024-01-15'' ''id-7'' 3
      Map.empty ?r1))) ''id-8'' = None"
    by simp_all
  from none p0 p1 p2 p3 p4 show ?thesis by (intro conjI)
qed

text \<open>The two copies of \<open>DownloadAsync\<close> do the same for a request that names
  accounts, and refuse the same requests.\<close>

lemma DownloadAsync_copies_agree:
  "Accounts req \<noteq> [] \<Longrightarrow>
   DownloadAsync_ids env today lastMonth newUUID now js req =
   DownloadAsync env today lastMonth newUUID now js req"
  "fst (DownloadAsync_ids env today lastMonth newUUID now js req) =
   fst (DownloadAsync env today lastMonth newUUID now js req)"
  by (simp_all add: DownloadAsync_ids_def DownloadAsync_def Let_def GetAllAccountIDs_map)

text \<open>
  Claim C10. The two copies of \<open>DownloadAsync\<close> hand the same account list to the
  orchestrator. They do not when the request names no account and an account is
  configured: with \<open>ETC_CORP_ACCOUNTS\<close> set to \<open>u1:p1\<close> the copy with the log
  buffer hands over \<open>u1:p1\<close> and the copy in \<open>download_service_grpc.go\<close> hands
  over \<open>u1\<close>, for which \<open>downloadAccountData\<close> reports an invalid account format
  without calling the scraper factory.
\<close>

theorem DownloadAsync_copies_differ:
  "map_option startedAccounts (snd (snd (DownloadAsync
      \<lparr>ETC_CORP_ACCOUNTS = ''u1:p1'', ETC_CORPORATE_ACCOUNTS = [], ETC_PERSONAL_ACCOUNTS = [],
       ETC_HEADLESS = []\<rparr> ''2024-02-15'' ''2024-01-15'' ''id-7'' 3 Map.empty
      \<lparr>Accounts = [], FromDate = [], ToDate = []\<rparr>))) = Some [''u1:p1''] \<and>
   map_option startedAccounts (snd (snd (DownloadAsync_ids
      \<lparr>ETC_CORP_ACCOUNTS = ''u1:p1'', ETC_CORPORATE_ACCOUNTS = [], ETC_PERSONAL_ACCOUNTS = [],
       ETC_HEADLESS = []\<rparr> ''2024-02-15'' ''2024-01-15'' ''id-7'' 3 Map.empty
      \<lparr>Accounts = [], FromDate = [], ToDate = []\<rparr>))) = Some [''u1''] \<and>
   downloadAccountData f henv ''u1'' fromDate toDate sf =
     ([], Returns (Some (InvalidAccountFormat ''u1'')))"
proof -
  let ?env = "\<lparr>ETC_CORP_ACCOUNTS = ''u1:p1'', ETC_CORPORATE_ACCOUNTS = [],
       ETC_PERSONAL_ACCOUNTS = [], ETC_HEADLESS = []\<rparr>"
  have p: "parseAccountsString ''u1:p1'' = [''u1:p1'']"
    by (simp add: parseAccountsString_def TrimSpace_examples HasPrefix_def)
  have c: "GetAllAccountsWithCredentials ?env = [''u1:p1'']"
    by (simp add: GetAllAccountsWithCredentials_def p)
  have i: "GetAllAccountIDs ?env = [''u1'']"
    by (simp add: GetAllAccountIDs_map c TrimSpace_examples)
  have d: "downloadAccountData f henv ''u1'' fromDate toDate sf =
     ([], Returns (Some (InvalidAccountFormat ''u1'')))"
    by (simp add: downloadAccountData_def credentials_def Let_def)
  show ?thesis
    by (simp add: DownloadAsync_def DownloadAsync_ids_def Let_def c i d)
qed

end
